theory Spec2Isabelle
  imports Complex_Main
begin

section \<open>ScanChIP-P: feature extraction, epsilon estimation and TAD quality scores\<close>

text \<open>
  A shallow embedding of \<^verbatim>\<open>bin/ScanChIPP_f2.py\<close>. Python integers are \<open>int\<close>,
  Python lists are HOL lists, a raised exception is the left summand of a result of type
  \<open>exn + 'a\<close>. The quotients of the two quality scores are real numbers: the
  development states what they divide, not how the result is rounded.
\<close>

subsection \<open>Python and numpy primitives\<close>

text \<open>
  The first six constructors are the built-in exceptions that the statements of the module
  can raise. The module defines no exception class of its own; the last two constructors
  are the error kinds that the specification names (section 7), present so that statements
  about them can be written. No definition below produces them.
\<close>

datatype exn =
    IndexError | ValueError | NameError | TypeError | ZeroDivisionError | OverflowError
  | InsufficientDataError | DegenerateInputError

definition py_len :: "'a list \<Rightarrow> int" where
  "py_len xs = int (length xs)"

text \<open>\<^verbatim>\<open>range(a, b)\<close>: the integers from \<open>a\<close> up to \<open>b - 1\<close>, empty when \<open>b \<le> a\<close>.\<close>

definition py_range :: "int \<Rightarrow> int \<Rightarrow> int list" where
  "py_range a b = [a..b - 1]"

text \<open>
  A \<^verbatim>\<open>for\<close> loop over the elements \<open>xs\<close> whose body updates the loop state
  \<open>s\<close>; an exception raised by the body ends the loop and propagates.
\<close>

fun for_each :: "'i list \<Rightarrow> ('i \<Rightarrow> 's \<Rightarrow> exn + 's) \<Rightarrow> 's \<Rightarrow> exn + 's" where
  "for_each [] body s = Inr s"
| "for_each (x # xs) body s =
     (case body x s of Inl e \<Rightarrow> Inl e | Inr s' \<Rightarrow> for_each xs body s')"

text \<open>
  Indexing one axis of length \<open>n\<close> with the integer \<open>i\<close>, for Python lists and numpy
  arrays alike: an index in \<open>[-n, 0)\<close> counts from the end, an index outside
  \<open>[-n, n)\<close> raises \<^verbatim>\<open>IndexError\<close>.
\<close>

definition axis_index :: "nat \<Rightarrow> int \<Rightarrow> exn + nat" where
  "axis_index n i =
     (if 0 \<le> i \<and> i < int n then Inr (nat i)
      else if - int n \<le> i \<and> i < 0 then Inr (nat (i + int n))
      else Inl IndexError)"

definition py_getitem :: "'a list \<Rightarrow> int \<Rightarrow> exn + 'a" where
  "py_getitem xs i =
     (case axis_index (length xs) i of Inl e \<Rightarrow> Inl e | Inr k \<Rightarrow> Inr (xs ! k))"

text \<open>
  \<^verbatim>\<open>matrix[r, c]\<close> on a two-dimensional numpy array, held as the list of its rows
  (all of one length).
\<close>

definition np_getitem2 :: "'a list list \<Rightarrow> int \<Rightarrow> int \<Rightarrow> exn + 'a" where
  "np_getitem2 matrix r c =
     (case axis_index (length matrix) r of
        Inl e \<Rightarrow> Inl e
      | Inr r' \<Rightarrow> py_getitem (matrix ! r') c)"

subsection \<open>Feature extraction\<close>

text \<open>
  \<^verbatim>\<open>create_feature_data\<close> (lines 42-76). The loop state is the list
  \<^verbatim>\<open>features\<close>; \<^verbatim>\<open>features.append(v)\<close> is \<open>features @ [v]\<close>.
\<close>

definition create_feature_data :: "'a list list \<Rightarrow> int \<Rightarrow> exn + 'a list" where
  "create_feature_data matrix window_length =
     for_each (py_range 0 (py_len matrix)) (\<lambda>diag features.
       let window = window_length + diag in
       if window > py_len matrix then
         for_each (py_range 0 window_length) (\<lambda>i.
           for_each (py_range 0 window_length) (\<lambda>j features.
             case np_getitem2 matrix (diag - i) (diag - j) of
               Inl e \<Rightarrow> Inl e
             | Inr v \<Rightarrow> Inr (features @ [v]))) features
       else
         for_each (py_range diag window) (\<lambda>j.
           for_each (py_range diag window) (\<lambda>i features.
             case np_getitem2 matrix i j of
               Inl e \<Rightarrow> Inl e
             | Inr v \<Rightarrow> Inr (features @ [v]))) features) []"

text \<open>A matrix is square when each of its rows is as long as the list of rows.\<close>

definition square :: "'a list list \<Rightarrow> bool" where
  "square matrix = list_all (\<lambda>row. length row = length matrix) matrix"

text \<open>
  The feature sequence as the specification words it (sections 3 and 4.1): for each
  diagonal position \<open>d\<close> the window of entries, read backward when \<open>windowLength + d\<close>
  exceeds \<open>N\<close> (\<open>i\<close> outer, \<open>j\<close> inner) and forward otherwise (columns \<open>j\<close> outer, rows
  \<open>i\<close> inner). \<open>spec_entry\<close> reads \<open>matrix[r, c]\<close>, a negative index counting from
  the end.
\<close>

definition spec_entry :: "'a list list \<Rightarrow> int \<Rightarrow> int \<Rightarrow> 'a" where
  "spec_entry matrix r c =
     (let N = int (length matrix);
          r' = (if r < 0 then r + N else r);
          c' = (if c < 0 then c + N else c)
      in matrix ! nat r' ! nat c')"

definition spec_window :: "'a list list \<Rightarrow> int \<Rightarrow> int \<Rightarrow> 'a list" where
  "spec_window matrix windowLength d =
     (let N = int (length matrix); window = windowLength + d in
      if window > N then
        concat (map (\<lambda>i. map (\<lambda>j. spec_entry matrix (d - i) (d - j)) [0..windowLength - 1])
                    [0..windowLength - 1])
      else
        concat (map (\<lambda>j. map (\<lambda>i. spec_entry matrix i j) [d..window - 1]) [d..window - 1]))"

definition spec_features :: "'a list list \<Rightarrow> int \<Rightarrow> 'a list" where
  "spec_features matrix windowLength =
     concat (map (spec_window matrix windowLength) [0..int (length matrix) - 1])"

subsection \<open>Epsilon estimation\<close>

text \<open>\<^verbatim>\<open>a // b\<close> on integers: floor division, \<^verbatim>\<open>ZeroDivisionError\<close> when \<open>b = 0\<close>.\<close>

definition py_floordiv :: "int \<Rightarrow> int \<Rightarrow> exn + int" where
  "py_floordiv a b = (if b = 0 then Inl ZeroDivisionError else Inr (a div b))"

text \<open>
  The slice \<^verbatim>\<open>xs[start:stop]\<close>: a negative bound counts from the end, and both bounds
  are clipped to \<open>[0, len(xs)]\<close>. An omitted lower bound is \<open>0\<close>, an omitted upper
  bound is \<open>len(xs)\<close>.
\<close>

definition py_slice :: "'a list \<Rightarrow> int \<Rightarrow> int \<Rightarrow> 'a list" where
  "py_slice xs start stop =
     (let n = py_len xs;
          clip = (\<lambda>i. if i < 0 then max 0 (i + n) else min i n)
      in drop (nat (clip start)) (take (nat (clip stop)) xs))"

text \<open>
  The arithmetic of the elements. \<^verbatim>\<open>find_elbow_point\<close> applies \<^verbatim>\<open>-\<close>,
  \<^verbatim>\<open>** 2\<close>, \<^verbatim>\<open>>\<close> and \<^verbatim>\<open>==\<close> to the elements of the list it is given, and
  Python hands each of them to the type of the elements: unbounded integers, floats,
  \<^verbatim>\<open>numpy.float64\<close>. What they return (exactly, rounded, wrapped, \<^verbatim>\<open>inf\<close>,
  \<^verbatim>\<open>nan\<close>) is not fixed by the module, so the four operations are a parameter of the
  model. \<open>el_pow2\<close> may raise: on Python floats \<^verbatim>\<open>x ** 2\<close> raises
  \<^verbatim>\<open>OverflowError\<close> when the square is out of range.
\<close>

record 'f arith =
  el_sub :: "'f \<Rightarrow> 'f \<Rightarrow> 'f"
  el_pow2 :: "'f \<Rightarrow> exn + 'f"
  el_gt :: "'f \<Rightarrow> 'f \<Rightarrow> bool"
  el_eq :: "'f \<Rightarrow> 'f \<Rightarrow> bool"

text \<open>
  The numerics that \<^verbatim>\<open>k_distance\<close> leaves to numpy, again a parameter: the
  elementwise subtraction of two arrays in their dtype \<open>'e\<close> (\<open>np_sub\<close>; on
  \<^verbatim>\<open>int64\<close> it wraps around, on \<^verbatim>\<open>float64\<close> it rounds),
  \<^verbatim>\<open>np.linalg.norm\<close> of a one-dimensional array, which returns a
  \<^verbatim>\<open>numpy.float64\<close> (type \<open>'f\<close>), and the scalar operations of
  \<^verbatim>\<open>numpy.float64\<close>, none of which raises under numpy's default error handling
  (an overflowing square is \<^verbatim>\<open>inf\<close> with a warning).
\<close>

record ('e, 'f) numpy =
  np_sub :: "'e \<Rightarrow> 'e \<Rightarrow> 'e"
  np_linalg_norm :: "'e list \<Rightarrow> 'f"
  f64_sub :: "'f \<Rightarrow> 'f \<Rightarrow> 'f"
  f64_square :: "'f \<Rightarrow> 'f"
  f64_gt :: "'f \<Rightarrow> 'f \<Rightarrow> bool"
  f64_eq :: "'f \<Rightarrow> 'f \<Rightarrow> bool"

definition float64_arith :: "('e, 'f) numpy \<Rightarrow> 'f arith" where
  "float64_arith N =
     \<lparr>el_sub = f64_sub N, el_pow2 = (\<lambda>x. Inr (f64_square N x)),
      el_gt = f64_gt N, el_eq = f64_eq N\<rparr>"

text \<open>
  The difference \<^verbatim>\<open>np.array(a) - np.array(b)\<close> of one-dimensional arrays: elementwise
  for equal lengths, an array of length one is broadcast, other shapes raise
  \<^verbatim>\<open>ValueError\<close>.
\<close>

definition np_subtract :: "('e \<Rightarrow> 'e \<Rightarrow> 'e) \<Rightarrow> 'e list \<Rightarrow> 'e list \<Rightarrow> exn + 'e list" where
  "np_subtract sub a b =
     (if length a = length b then Inr (map2 sub a b)
      else if length a = 1 then Inr (map (\<lambda>y. sub (hd a) y) b)
      else if length b = 1 then Inr (map (\<lambda>x. sub x (hd b)) a)
      else Inl ValueError)"

text \<open>
  The elements of a list are objects. An object is held as the pair of its position in the
  list, which stands for its identity (every pass of the loop of line 116 appends a new
  object), and its value. \<^verbatim>\<open>max(xs)\<close> raises \<^verbatim>\<open>ValueError\<close> on an empty list
  and otherwise returns one of the objects: it replaces the current one by an item only when
  \<^verbatim>\<open>item > current\<close>. \<^verbatim>\<open>xs.index(v)\<close> is the first position whose object is
  \<open>v\<close> itself or is \<^verbatim>\<open>==\<close> to it, and raises \<^verbatim>\<open>ValueError\<close> when there is
  none.
\<close>

definition py_objects :: "'f list \<Rightarrow> (nat \<times> 'f) list" where
  "py_objects xs = zip [0..<length xs] xs"

fun py_max :: "('f \<Rightarrow> 'f \<Rightarrow> bool) \<Rightarrow> (nat \<times> 'f) list \<Rightarrow> exn + nat \<times> 'f" where
  "py_max gt [] = Inl ValueError"
| "py_max gt (x # xs) =
     Inr (fold (\<lambda>item maxitem. if gt (snd item) (snd maxitem) then item else maxitem) xs x)"

fun py_list_index :: "('f \<Rightarrow> 'f \<Rightarrow> bool) \<Rightarrow> (nat \<times> 'f) list \<Rightarrow> nat \<times> 'f \<Rightarrow> exn + int" where
  "py_list_index eq [] v = Inl ValueError"
| "py_list_index eq (x # xs) v =
     (if fst x = fst v \<or> eq (snd x) (snd v) then Inr 0
      else case py_list_index eq xs v of Inl e \<Rightarrow> Inl e | Inr k \<Rightarrow> Inr (k + 1))"

text \<open>
  \<^verbatim>\<open>find_elbow_point\<close> (lines 105-130), for elements with the arithmetic \<open>A\<close>. The
  calls to \<^verbatim>\<open>plt\<close> between the loop and the search draw the distortions against
  \<^verbatim>\<open>range(1, len(k_distances))\<close>, two sequences of one length; they display a figure
  and leave the values untouched, and are not part of the model.
\<close>

definition distortions_loop :: "'f arith \<Rightarrow> 'f list \<Rightarrow> exn + 'f list" where
  "distortions_loop A k_distances =
     for_each (py_range 1 (py_len k_distances)) (\<lambda>i distortions.
       case py_getitem k_distances i of
         Inl e \<Rightarrow> Inl e
       | Inr a \<Rightarrow>
           (case py_getitem k_distances (i - 1) of
              Inl e \<Rightarrow> Inl e
            | Inr b \<Rightarrow>
                (case el_pow2 A (el_sub A a b) of
                   Inl e \<Rightarrow> Inl e
                 | Inr distortion \<Rightarrow> Inr (distortions @ [distortion])))) []"

definition find_elbow_point :: "'f arith \<Rightarrow> 'f list \<Rightarrow> exn + int" where
  "find_elbow_point A k_distances =
     (case distortions_loop A k_distances of
        Inl e \<Rightarrow> Inl e
      | Inr distortions \<Rightarrow>
          (case py_max (el_gt A) (py_objects distortions) of
             Inl e \<Rightarrow> Inl e
           | Inr m \<Rightarrow>
               (case py_list_index (el_eq A) (py_objects distortions) m of
                  Inl e \<Rightarrow> Inl e
                | Inr elbow_point_index \<Rightarrow> Inr (elbow_point_index + 1))))"

text \<open>
  \<^verbatim>\<open>k_distance\<close> (lines 82-103), with numpy's numerics \<open>N\<close>.
  \<open>k_distances_series\<close> is the list \<^verbatim>\<open>k_distances\<close> as it stands when line 103 is
  reached, a list of \<^verbatim>\<open>numpy.float64\<close>; \<open>k_distance\<close> hands it to
  \<open>find_elbow_point\<close>.
\<close>

definition k_distances_loop :: "('e, 'f) numpy \<Rightarrow> 'e list \<Rightarrow> int \<Rightarrow> int \<Rightarrow> exn + 'f list" where
  "k_distances_loop N features window_length num_windows =
     for_each (py_range 0 num_windows) (\<lambda>window_idx k_distances.
       let start_idx = window_idx * 2 * window_length;
           end_idx = start_idx + 2 * window_length;
           window_data = py_slice features start_idx end_idx
       in case np_subtract (np_sub N) (py_slice window_data 0 (- 1))
                 (py_slice window_data 1 (py_len window_data)) of
            Inl e \<Rightarrow> Inl e
          | Inr difference \<Rightarrow> Inr (k_distances @ [np_linalg_norm N difference])) []"

definition k_distances_series :: "('e, 'f) numpy \<Rightarrow> 'e list \<Rightarrow> int \<Rightarrow> exn + 'f list" where
  "k_distances_series N features window_length =
     (case py_floordiv (py_len features) (2 * window_length) of
        Inl e \<Rightarrow> Inl e
      | Inr num_windows \<Rightarrow> k_distances_loop N features window_length num_windows)"

definition k_distance :: "('e, 'f) numpy \<Rightarrow> 'e list \<Rightarrow> int \<Rightarrow> exn + int" where
  "k_distance N features window_length =
     (case k_distances_series N features window_length of
        Inl e \<Rightarrow> Inl e
      | Inr k_distances \<Rightarrow> find_elbow_point (float64_arith N) k_distances)"

text \<open>
  Three arithmetics to run the functions with. \<open>py_int_arith\<close> is that of Python's
  integers, which are unbounded: every operation is exact and none raises.
\<close>

definition py_int_arith :: "int arith" where
  "py_int_arith =
     \<lparr>el_sub = (\<lambda>a b. a - b), el_pow2 = (\<lambda>x. Inr (x\<^sup>2)),
      el_gt = (\<lambda>a b. b < a), el_eq = (\<lambda>a b. a = b)\<rparr>"

text \<open>
  \<open>unrounded_float_arith\<close> is an arithmetic on the reals that does not round and
  whose square has the range of Python's floats: \<^verbatim>\<open>x ** 2\<close> raises
  \<^verbatim>\<open>OverflowError\<close> once \<open>|x| \<ge> 2\<^sup>5\<^sup>1\<^sup>2\<close>, the square being beyond the largest
  float. Python's floats, each read as the real number it stands for, agree with it on the
  inputs where none of their operations rounds; it says nothing of the others and is used
  only at such inputs.
\<close>

definition unrounded_float_arith :: "real arith" where
  "unrounded_float_arith =
     \<lparr>el_sub = (\<lambda>a b. a - b),
      el_pow2 = (\<lambda>x. if 2 ^ 512 \<le> \<bar>x\<bar> then Inl OverflowError else Inr (x\<^sup>2)),
      el_gt = (\<lambda>a b. b < a), el_eq = (\<lambda>a b. a = b)\<rparr>"

text \<open>
  \<open>unrounded_int64_numerics\<close> has the subtraction of \<^verbatim>\<open>int64\<close> arrays, which
  wraps around modulo \<open>2\<^sup>6\<^sup>4\<close> as numpy's does, without a warning, and a norm and
  \<^verbatim>\<open>float64\<close> operations that do not round. numpy agrees with it on the inputs where
  it computes the norm and the \<^verbatim>\<open>float64\<close> operations without rounding; it says
  nothing of the others and is used only at such inputs.
\<close>

definition wrap64 :: "int \<Rightarrow> int" where
  "wrap64 x = (x + 2 ^ 63) mod 2 ^ 64 - 2 ^ 63"

definition unrounded_int64_numerics :: "(int, real) numpy" where
  "unrounded_int64_numerics =
     \<lparr>np_sub = (\<lambda>a b. wrap64 (a - b)),
      np_linalg_norm = (\<lambda>v. sqrt (\<Sum>x\<leftarrow>v. (real_of_int x)\<^sup>2)),
      f64_sub = (\<lambda>a b. a - b), f64_square = (\<lambda>x. x\<^sup>2),
      f64_gt = (\<lambda>a b. b < a), f64_eq = (\<lambda>a b. a = b)\<rparr>"

text \<open>
  The series as the specification words it (section 3): one entry per consecutive,
  non-overlapping chunk of \<open>2 \<sqdot> windowLength\<close> features, each the Euclidean norm of the
  chunk's first difference \<open>c\<^sub>k\<^sub>+\<^sub>1 - c\<^sub>k\<close>.
\<close>

definition spec_chunk :: "'e list \<Rightarrow> nat \<Rightarrow> nat \<Rightarrow> 'e list" where
  "spec_chunk features n k = take n (drop (k * n) features)"

definition spec_first_difference :: "real list \<Rightarrow> real list" where
  "spec_first_difference c = map (\<lambda>k. c ! Suc k - c ! k) [0..<length c - 1]"

definition spec_euclidean_norm :: "real list \<Rightarrow> real" where
  "spec_euclidean_norm v = sqrt (\<Sum>x\<leftarrow>v. x\<^sup>2)"

definition spec_k_distances :: "real list \<Rightarrow> nat \<Rightarrow> real list" where
  "spec_k_distances features windowLength =
     map (\<lambda>k. spec_euclidean_norm
                (spec_first_difference (spec_chunk features (2 * windowLength) k)))
       [0..<length features div (2 * windowLength)]"

text \<open>
  The same series in numpy's terms: for the chunk \<open>c\<close>, line 100 hands
  \<^verbatim>\<open>c[:-1] - c[1:]\<close>, computed elementwise in the dtype, to \<^verbatim>\<open>np.linalg.norm\<close>.
  The arithmetic is exact on a chunk, for readings \<open>val\<close> and \<open>fval\<close> of the dtype's
  and of \<^verbatim>\<open>float64\<close>'s values as reals, when each of these differences is the
  difference of the reals and the norm returned is the Euclidean norm.
\<close>

definition np_differences :: "('e, 'f) numpy \<Rightarrow> 'e list \<Rightarrow> 'e list" where
  "np_differences N c = map2 (np_sub N) (butlast c) (tl c)"

definition np_k_distances :: "('e, 'f) numpy \<Rightarrow> 'e list \<Rightarrow> nat \<Rightarrow> 'f list" where
  "np_k_distances N features windowLength =
     map (\<lambda>k. np_linalg_norm N (np_differences N (spec_chunk features (2 * windowLength) k)))
       [0..<length features div (2 * windowLength)]"

definition exact_on :: "('e, 'f) numpy \<Rightarrow> ('e \<Rightarrow> real) \<Rightarrow> ('f \<Rightarrow> real) \<Rightarrow> 'e list \<Rightarrow> bool" where
  "exact_on N val fval c =
     (list_all (\<lambda>j. val (np_sub N (c ! j) (c ! Suc j)) = val (c ! j) - val (c ! Suc j))
        [0..<length c - 1]
      \<and> fval (np_linalg_norm N (np_differences N c))
          = spec_euclidean_norm (map val (np_differences N c)))"

text \<open>
  The distortion of position \<open>i\<close> as line 118 computes it, with the elements' own
  arithmetic (section 4.2 of the specification: \<open>(kDistances[i] - kDistances[i-1])\<^sup>2\<close>).
\<close>

definition el_distortion :: "'f arith \<Rightarrow> 'f list \<Rightarrow> nat \<Rightarrow> exn + 'f" where
  "el_distortion A kDistances i = el_pow2 A (el_sub A (kDistances ! i) (kDistances ! (i - 1)))"

subsection \<open>TAD quality scores\<close>

text \<open>
  Name lookup. A name that a function does not bind itself is looked up in the module's
  global namespace (and then among the builtins) when the statement runs; an unbound name
  raises \<^verbatim>\<open>NameError\<close>. \<open>module_globals\<close> lists every name the module binds at top
  level: its imports and its functions.
\<close>

datatype pyobj = PyModule | PyClass | PyFunction | PyList "int list list"

definition lookup_name :: "(string \<rightharpoonup> pyobj) \<Rightarrow> string \<Rightarrow> exn + pyobj" where
  "lookup_name globals name =
     (case globals name of None \<Rightarrow> Inl NameError | Some v \<Rightarrow> Inr v)"

definition module_globals :: "string \<rightharpoonup> pyobj" where
  "module_globals = map_of
     [(''DBSCAN'', PyClass), (''pd'', PyModule), (''np'', PyModule), (''argparse'', PyModule),
      (''os'', PyModule), (''plt'', PyModule), (''main'', PyFunction),
      (''create_feature_data'', PyFunction), (''k_distance'', PyFunction),
      (''find_elbow_point'', PyFunction), (''min_pnts'', PyFunction),
      (''generate_tad'', PyFunction), (''measure_of_concordance'', PyFunction),
      (''modified_jaccard_index'', PyFunction), (''length_quality'', PyFunction),
      (''amount_identified_quality'', PyFunction), (''interaction_quality'', PyFunction),
      (''setup_parser'', PyFunction), (''parse_arguments'', PyFunction)]"

text \<open>\<^verbatim>\<open>obj[j]\<close>: only a list can be subscripted by an integer.\<close>

definition py_subscript :: "pyobj \<Rightarrow> int \<Rightarrow> exn + int list" where
  "py_subscript obj j =
     (case obj of PyList xs \<Rightarrow> py_getitem xs j | _ \<Rightarrow> Inl TypeError)"

text \<open>\<^verbatim>\<open>a / b\<close> on integers: the quotient as a real, \<^verbatim>\<open>ZeroDivisionError\<close> when \<open>b = 0\<close>.\<close>

definition py_truediv :: "int \<Rightarrow> int \<Rightarrow> exn + real" where
  "py_truediv a b =
     (if b = 0 then Inl ZeroDivisionError else Inr (real_of_int a / real_of_int b))"

text \<open>
  \<^verbatim>\<open>measure_of_concordance\<close> (lines 159-181), run with the global namespace
  \<open>globals\<close>. \<open>moc_body\<close> is the body of the inner loop for one pair \<open>(i, j)\<close>:
  line 177 intersects \<^verbatim>\<open>set(tad_1[i])\<close> with \<^verbatim>\<open>set(B[j])\<close>, where
  \<^verbatim>\<open>B\<close> is neither a parameter nor a local variable; line 178 takes its lengths from
  \<^verbatim>\<open>tad_1[i]\<close> and \<^verbatim>\<open>tad_2[j]\<close>. The loop state is \<^verbatim>\<open>sum_term\<close>.
\<close>

definition moc_body ::
  "(string \<rightharpoonup> pyobj) \<Rightarrow> int list list \<Rightarrow> int list list \<Rightarrow> int \<Rightarrow> int \<Rightarrow> real \<Rightarrow> exn + real" where
  "moc_body globals tad_1 tad_2 i j sum_term =
     (case py_getitem tad_1 i of Inl e \<Rightarrow> Inl e | Inr a \<Rightarrow>
     (case lookup_name globals ''B'' of Inl e \<Rightarrow> Inl e | Inr B \<Rightarrow>
     (case py_subscript B j of Inl e \<Rightarrow> Inl e | Inr b \<Rightarrow>
     (let common_bins = int (card (set a \<inter> set b)) in
      case py_getitem tad_1 i of Inl e \<Rightarrow> Inl e | Inr a' \<Rightarrow>
     (case py_getitem tad_2 j of Inl e \<Rightarrow> Inl e | Inr b' \<Rightarrow>
     (case py_truediv (common_bins\<^sup>2) (py_len a' * py_len b' - 1) of
        Inl e \<Rightarrow> Inl e
      | Inr term \<Rightarrow> Inr (sum_term + term)))))))"

definition measure_of_concordance_in ::
  "(string \<rightharpoonup> pyobj) \<Rightarrow> int list list \<Rightarrow> int list list \<Rightarrow> exn + real" where
  "measure_of_concordance_in globals tad_1 tad_2 =
     (let n_tad_1 = py_len tad_1; n_tad_2 = py_len tad_2 in
      case
        for_each (py_range 0 n_tad_1) (\<lambda>i.
          for_each (py_range 0 n_tad_2) (moc_body globals tad_1 tad_2 i)) 0
      of
        Inl e \<Rightarrow> Inl e
      | Inr sum_term \<Rightarrow>
          (case py_truediv 1 (n_tad_1 * n_tad_2 - 1) of
             Inl e \<Rightarrow> Inl e
           | Inr c \<Rightarrow> Inr (c * sum_term)))"

text \<open>The function as the module has it: run in the module's own namespace.\<close>

definition measure_of_concordance :: "int list list \<Rightarrow> int list list \<Rightarrow> exn + real" where
  "measure_of_concordance tad_1 tad_2 = measure_of_concordance_in module_globals tad_1 tad_2"

text \<open>
  The measure of concordance as the specification words it (section 4.4): the sum over
  all pairs of TADs of \<open>|a \<inter> b|\<^sup>2 / (|a| \<sqdot> |b| - 1)\<close>, times
  \<open>1 / (n1 \<sqdot> n2 - 1)\<close>.
\<close>

definition spec_measure_of_concordance :: "int list list \<Rightarrow> int list list \<Rightarrow> real" where
  "spec_measure_of_concordance tadSet1 tadSet2 =
     1 / (real (length tadSet1) * real (length tadSet2) - 1)
     * (\<Sum>a\<leftarrow>tadSet1. \<Sum>b\<leftarrow>tadSet2.
          (real (card (set a \<inter> set b)))\<^sup>2 / (real (length a) * real (length b) - 1))"

text \<open>
  \<^verbatim>\<open>modified_jaccard_index\<close> (lines 184-209). A boundary set is given by the list of
  its elements in iteration order; \<^verbatim>\<open>len\<close> is the length of that list and
  \<^verbatim>\<open>in\<close> is membership. The loop state is the pair of
  \<^verbatim>\<open>intersecting_set\<close> and \<^verbatim>\<open>double_counted_boundaries\<close>. No statement of the
  function can raise: the division is guarded.
\<close>

definition jaccard_step :: "int list \<Rightarrow> int \<Rightarrow> int \<Rightarrow> int set \<times> int set \<Rightarrow> int set \<times> int set" where
  "jaccard_step tad_2 boundary offset st =
     (let intersecting_set = fst st; double_counted_boundaries = snd st;
          shifted_boundary = boundary + offset
      in if shifted_boundary \<in> set tad_2 then
           if shifted_boundary \<notin> double_counted_boundaries then
             (insert shifted_boundary intersecting_set,
              insert shifted_boundary double_counted_boundaries)
           else st
         else st)"

definition jaccard_loop :: "int list \<Rightarrow> int list \<Rightarrow> int set \<times> int set" where
  "jaccard_loop tad_1 tad_2 =
     fold (\<lambda>boundary. fold (jaccard_step tad_2 boundary) (py_range (- 1) 2)) tad_1 ({}, {})"

definition modified_jaccard_index :: "int list \<Rightarrow> int list \<Rightarrow> real" where
  "modified_jaccard_index tad_1 tad_2 =
     (let intersecting_set = fst (jaccard_loop tad_1 tad_2);
          union_size = py_len tad_1 + py_len tad_2 - int (card intersecting_set)
      in if union_size \<noteq> 0
         then real_of_int (int (card intersecting_set)) / real_of_int union_size
         else 0)"

text \<open>
  The matched set of the specification (section 4.4): the boundaries of set 2 that lie
  within one bin of some boundary of set 1.
\<close>

definition spec_matched :: "int list \<Rightarrow> int list \<Rightarrow> int set" where
  "spec_matched set1 set2 = (\<Union>b\<in>set set1. {b - 1, b, b + 1}) \<inter> set set2"

subsection \<open>Indexing and loops\<close>

lemma py_getitem_nth: "0 \<le> i \<Longrightarrow> i < int (length xs) \<Longrightarrow> py_getitem xs i = Inr (xs ! nat i)"
  by (simp add: py_getitem_def axis_index_def)

lemma py_range_Cons: "a < b \<Longrightarrow> py_range a b = a # py_range (a + 1) b"
  by (simp add: py_range_def upto_rec1)

lemma map_int_range: "map (\<lambda>i. f (nat i)) (py_range 0 n) = map f [0..<nat n]"
  by (rule nth_equalityI) (auto simp: py_range_def)

lemma map_index_range: "map (\<lambda>i. f (xs ! nat i)) (py_range 0 (py_len xs)) = map f xs"
  by (rule nth_equalityI) (auto simp: py_range_def py_len_def)

text \<open>Loops whose body appends to a list, adds to a sum, or leaves the state alone.\<close>

lemma for_each_append:
  "(\<And>x s. x \<in> set xs \<Longrightarrow> body x s = Inr (s @ g x)) \<Longrightarrow>
   for_each xs body s = Inr (s @ concat (map g xs))"
  by (induction xs arbitrary: s) auto

lemma for_each_map:
  "(\<And>x s. x \<in> set xs \<Longrightarrow> body x s = Inr (s @ [g x])) \<Longrightarrow>
   for_each xs body s = Inr (s @ map g xs)"
  by (induction xs arbitrary: s) auto

lemma for_each_sum:
  "(\<And>x s. x \<in> set xs \<Longrightarrow> body x s = Inr (s + f x)) \<Longrightarrow>
   for_each xs body (s :: real) = Inr (s + sum_list (map f xs))"
  by (induction xs arbitrary: s) (auto simp: add.assoc)

lemma for_each_skip:
  "(\<And>x s. x \<in> set xs \<Longrightarrow> body x s = Inr s) \<Longrightarrow> for_each xs body s = Inr s"
  by (induction xs arbitrary: s) auto

text \<open>
  An exception that leaves a loop was raised by its body; and a loop raises when the body
  raises, from every state, at one of its elements.
\<close>

lemma for_each_error_source:
  "for_each xs body s = Inl e \<Longrightarrow> \<exists>x\<in>set xs. \<exists>s'. body x s' = Inl e"
  by (induction xs arbitrary: s) (auto split: sum.splits)

lemma for_each_must_raise:
  "x \<in> set xs \<Longrightarrow> (\<And>s. \<exists>e. body x s = Inl e) \<Longrightarrow> \<exists>e. for_each xs body s = Inl e"
proof (induction xs arbitrary: s)
  case Nil
  then show ?case by simp
next
  case (Cons y ys)
  show ?case
  proof (cases "body y s")
    case (Inl e)
    then show ?thesis by simp
  next
    case (Inr s')
    then have "x \<noteq> y" using Cons.prems(2) [of s] by auto
    then have "x \<in> set ys" using Cons.prems(1) by simp
    then show ?thesis using Cons.IH [of s'] Cons.prems(2) Inr by simp
  qed
qed

subsection \<open>Properties of the feature extraction\<close>

lemma np_getitem2_square:
  assumes "square m" "- int (length m) \<le> r" "r < int (length m)"
    "- int (length m) \<le> c" "c < int (length m)"
  shows "np_getitem2 m r c = Inr (spec_entry m r c)"
proof -
  define N where "N = int (length m)"
  define r' where "r' = (if r < 0 then r + N else r)"
  have r': "0 \<le> r'" "nat r' < length m" using assms by (auto simp: r'_def N_def)
  have row: "length (m ! nat r') = length m"
    using assms(1) r' by (simp add: square_def list_all_length)
  have ax_r: "axis_index (length m) r = Inr (nat r')"
    using assms by (auto simp: axis_index_def r'_def N_def)
  define c' where "c' = (if c < 0 then c + N else c)"
  have ax_c: "axis_index (length m) c = Inr (nat c')"
    using assms by (auto simp: axis_index_def c'_def N_def)
  have "np_getitem2 m r c = Inr (m ! nat r' ! nat c')"
    by (simp add: np_getitem2_def py_getitem_def ax_r row ax_c)
  also have "m ! nat r' ! nat c' = spec_entry m r c"
    by (simp add: spec_entry_def Let_def r'_def c'_def N_def)
  finally show ?thesis .
qed

text \<open>One pass of the outer loop body appends the window of its diagonal position.\<close>

lemma diagonal_body_window:
  assumes "square m" "1 \<le> w" "w \<le> int (length m) + 1" "0 \<le> d" "d < int (length m)"
  shows "(let window = w + d in
       if window > py_len m then
         for_each (py_range 0 w) (\<lambda>i.
           for_each (py_range 0 w) (\<lambda>j features.
             case np_getitem2 m (d - i) (d - j) of
               Inl e \<Rightarrow> Inl e
             | Inr v \<Rightarrow> Inr (features @ [v]))) features
       else
         for_each (py_range d window) (\<lambda>j.
           for_each (py_range d window) (\<lambda>i features.
             case np_getitem2 m i j of
               Inl e \<Rightarrow> Inl e
             | Inr v \<Rightarrow> Inr (features @ [v]))) features)
     = Inr (features @ spec_window m w d)"
proof (cases "w + d > int (length m)")
  case True
  have inner: "for_each (py_range 0 w) (\<lambda>j features.
             case np_getitem2 m (d - i) (d - j) of
               Inl e \<Rightarrow> Inl e
             | Inr v \<Rightarrow> Inr (features @ [v])) s
     = Inr (s @ concat (map (\<lambda>j. [spec_entry m (d - i) (d - j)]) (py_range 0 w)))"
    if "i \<in> set (py_range 0 w)" for i s
    apply (rule for_each_append)
    using that assms by (simp add: py_range_def np_getitem2_square)
  have "for_each (py_range 0 w) (\<lambda>i.
           for_each (py_range 0 w) (\<lambda>j features.
             case np_getitem2 m (d - i) (d - j) of
               Inl e \<Rightarrow> Inl e
             | Inr v \<Rightarrow> Inr (features @ [v]))) features
     = Inr (features @ concat (map (\<lambda>i. concat (map (\<lambda>j. [spec_entry m (d - i) (d - j)])
         (py_range 0 w))) (py_range 0 w)))"
    by (rule for_each_append) (rule inner)
  then show ?thesis using True
    by (simp add: spec_window_def py_len_def py_range_def Let_def concat_map_singleton)
next
  case False
  have inner: "for_each (py_range d (w + d)) (\<lambda>i features.
             case np_getitem2 m i j of
               Inl e \<Rightarrow> Inl e
             | Inr v \<Rightarrow> Inr (features @ [v])) s
     = Inr (s @ concat (map (\<lambda>i. [spec_entry m i j]) (py_range d (w + d))))"
    if "j \<in> set (py_range d (w + d))" for j s
    apply (rule for_each_append)
    using that assms False by (simp add: py_range_def np_getitem2_square)
  have "for_each (py_range d (w + d)) (\<lambda>j.
           for_each (py_range d (w + d)) (\<lambda>i features.
             case np_getitem2 m i j of
               Inl e \<Rightarrow> Inl e
             | Inr v \<Rightarrow> Inr (features @ [v]))) features
     = Inr (features @ concat (map (\<lambda>j. concat (map (\<lambda>i. [spec_entry m i j])
         (py_range d (w + d)))) (py_range d (w + d))))"
    by (rule for_each_append) (rule inner)
  then show ?thesis using False
    by (simp add: spec_window_def py_len_def py_range_def Let_def concat_map_singleton)
qed

lemma create_feature_data_spec:
  assumes "square m" "1 \<le> w" "w \<le> int (length m) + 1"
  shows "create_feature_data m w = Inr (spec_features m w)"
proof -
  have "for_each (py_range 0 (py_len m)) (\<lambda>diag features.
       let window = w + diag in
       if window > py_len m then
         for_each (py_range 0 w) (\<lambda>i.
           for_each (py_range 0 w) (\<lambda>j features.
             case np_getitem2 m (diag - i) (diag - j) of
               Inl e \<Rightarrow> Inl e
             | Inr v \<Rightarrow> Inr (features @ [v]))) features
       else
         for_each (py_range diag window) (\<lambda>j.
           for_each (py_range diag window) (\<lambda>i features.
             case np_getitem2 m i j of
               Inl e \<Rightarrow> Inl e
             | Inr v \<Rightarrow> Inr (features @ [v]))) features) []
     = Inr ([] @ concat (map (spec_window m w) (py_range 0 (py_len m))))"
  proof (rule for_each_append)
    fix d s assume "d \<in> set (py_range 0 (py_len m))"
    then have "0 \<le> d" "d < int (length m)" by (auto simp: py_range_def py_len_def)
    then show "(let window = w + d in
       if window > py_len m then
         for_each (py_range 0 w) (\<lambda>i.
           for_each (py_range 0 w) (\<lambda>j features.
             case np_getitem2 m (d - i) (d - j) of
               Inl e \<Rightarrow> Inl e
             | Inr v \<Rightarrow> Inr (features @ [v]))) s
       else
         for_each (py_range d window) (\<lambda>j.
           for_each (py_range d window) (\<lambda>i features.
             case np_getitem2 m i j of
               Inl e \<Rightarrow> Inl e
             | Inr v \<Rightarrow> Inr (features @ [v]))) s) = Inr (s @ spec_window m w d)"
      by (rule diagonal_body_window [OF assms])
  qed
  then show ?thesis
    by (simp add: create_feature_data_def spec_features_def py_range_def py_len_def)
qed

lemma length_spec_window:
  "0 \<le> w \<Longrightarrow> length (spec_window m w d) = nat (w * w)"
  by (simp add: spec_window_def Let_def length_concat comp_def sum_list_triv nat_mult_distrib)

lemma length_spec_features:
  "0 \<le> w \<Longrightarrow> length (spec_features m w) = length m * nat (w * w)"
  by (simp add: spec_features_def length_concat comp_def length_spec_window sum_list_triv)

lemma np_getitem2_errors: "np_getitem2 m r c = Inl e \<Longrightarrow> e = IndexError"
  by (auto simp: np_getitem2_def py_getitem_def axis_index_def split: sum.splits if_splits)

lemma np_getitem2_column_low:
  assumes "square m" "m \<noteq> []" "c < - int (length m)"
  shows "np_getitem2 m 0 c = Inl IndexError"
proof -
  have "length (m ! 0) = length m"
    using assms(1,2) by (simp add: square_def list_all_length)
  then show ?thesis
    using assms by (simp add: np_getitem2_def py_getitem_def axis_index_def)
qed

lemma create_feature_data_raises:
  assumes "square m" "m \<noteq> []" "int (length m) + 1 < w"
  shows "create_feature_data m w = Inl IndexError"
proof -
  define inner where "inner = (\<lambda>i j (features :: 'a list).
       case np_getitem2 m (0 - i) (0 - j) of
         Inl e \<Rightarrow> (Inl e :: exn + 'a list)
       | Inr v \<Rightarrow> Inr (features @ [v]))"
  have fail: "inner 0 (int (length m) + 1) s = Inl IndexError" for s
    using np_getitem2_column_low [OF assms(1,2), of "0 - (int (length m) + 1)"]
    by (simp add: inner_def)
  have row: "for_each (py_range 0 w) (inner 0) s = Inl IndexError" for s
  proof -
    have "\<exists>e. for_each (py_range 0 w) (inner 0) s = Inl e"
    proof (rule for_each_must_raise [where x = "int (length m) + 1"])
      show "int (length m) + 1 \<in> set (py_range 0 w)"
        using assms(3) by (simp add: py_range_def)
      show "\<exists>e. inner 0 (int (length m) + 1) s = Inl e" for s
        using fail by blast
    qed
    then obtain e where e: "for_each (py_range 0 w) (inner 0) s = Inl e" by blast
    then obtain j s' where "inner 0 j s' = Inl e"
      using for_each_error_source by fastforce
    then have "e = IndexError"
      by (auto simp: inner_def split: sum.splits dest: np_getitem2_errors)
    then show ?thesis using e by simp
  qed
  have r0: "py_range 0 w = 0 # py_range (0 + 1) w"
    using assms(3) by (intro py_range_Cons) linarith
  have window: "for_each (py_range 0 w) (\<lambda>i. for_each (py_range 0 w) (inner i)) s
      = Inl IndexError" for s
    by (subst r0) (simp add: row)
  have r1: "py_range 0 (py_len m) = 0 # py_range (0 + 1) (py_len m)"
    using assms(2) by (intro py_range_Cons) (simp add: py_len_def)
  have "w + 0 > py_len m" using assms(3) by (simp add: py_len_def)
  then show ?thesis
    unfolding create_feature_data_def r1
    using window by (simp add: inner_def Let_def)
qed

text \<open>
  Claim C1, as the code has it. For a square \<open>N \<times> N\<close> matrix and a window length
  between \<open>1\<close> and \<open>N + 1\<close>, \<open>create_feature_data\<close> returns exactly the sequence that
  iterates the diagonal position \<open>d\<close> from \<open>0\<close> to \<open>N - 1\<close> and appends, when
  \<open>windowLength + d > N\<close>, the entries \<open>matrix[d - i, d - j]\<close> with \<open>i\<close> outer and
  \<open>j\<close> inner over \<open>[0, windowLength)\<close> (a negative index counting from the end, as numpy
  reads it), and otherwise the entries \<open>matrix[i, j]\<close> with the columns \<open>j\<close> outer and
  the rows \<open>i\<close> inner over \<open>[d, windowLength + d)\<close>. Every diagonal position
  contributes \<open>windowLength\<^sup>2\<close> values and the output has length
  \<open>N \<sqdot> windowLength\<^sup>2\<close>. For \<open>N \<ge> 1\<close> and a window length above \<open>N + 1\<close> the
  call raises \<^verbatim>\<open>IndexError\<close>.
\<close>

theorem create_feature_data_windows:
  assumes "square matrix" and "1 \<le> windowLength"
  shows "(windowLength \<le> int (length matrix) + 1 \<longrightarrow>
            create_feature_data matrix windowLength = Inr (spec_features matrix windowLength)
          \<and> list_all (\<lambda>d. length (spec_window matrix windowLength d)
                             = nat (windowLength * windowLength))
              [0..int (length matrix) - 1]
          \<and> length (spec_features matrix windowLength)
              = length matrix * nat (windowLength * windowLength))
       \<and> (matrix \<noteq> [] \<and> int (length matrix) + 1 < windowLength \<longrightarrow>
            create_feature_data matrix windowLength = Inl IndexError)"
  using assms
  by (simp add: create_feature_data_spec create_feature_data_raises length_spec_window
      length_spec_features list_all_iff)

theorem create_feature_data_windows_witness:
  "square [[1, 2, 3], [4, 5, 6], [7, 8, 9 :: int]] \<and> (1::int) \<le> 2
   \<and> (2::int) \<le> int (length [[1, 2, 3], [4, 5, 6], [7, 8, 9 :: int]]) + 1
   \<and> create_feature_data [[1, 2, 3], [4, 5, 6], [7, 8, 9 :: int]] 2
       = Inr [1, 4, 2, 5, 5, 8, 6, 9, 9, 8, 6, 5]
   \<and> length (spec_features [[1, 2, 3], [4, 5, 6], [7, 8, 9 :: int]] 2) = 12
   \<and> square [[5 :: int]] \<and> int (length [[5 :: int]]) + 1 < 4
   \<and> create_feature_data [[5 :: int]] 4 = Inl IndexError"
  using create_feature_data_windows [of "[[1, 2, 3], [4, 5, 6], [7, 8, 9 :: int]]" 2]
    create_feature_data_windows [of "[[5 :: int]]" 4]
  by (simp add: square_def spec_features_def spec_window_def spec_entry_def upto_rec1)

text \<open>
  Claim C1 as stated allows every window length \<open>\<ge> 1\<close>. On a \<open>1 \<times> 1\<close> matrix with
  window length \<open>3\<close> the backward branch reads \<open>matrix[0, -2]\<close>, outside the array:
  the call raises \<^verbatim>\<open>IndexError\<close> and returns no sequence.
\<close>

theorem create_feature_data_window_too_long:
  "create_feature_data [[0 :: int]] 3 = Inl IndexError"
  by (simp add: create_feature_data_def py_range_def py_len_def np_getitem2_def py_getitem_def
      axis_index_def upto_rec1)

subsection \<open>Properties of the modified Jaccard index\<close>

lemma py_range_offsets: "py_range (- 1) 2 = [- 1, 0, 1]"
  by (simp add: py_range_def upto_rec1)

text \<open>
  The two sets of the loop state stay equal, so the test against
  \<^verbatim>\<open>double_counted_boundaries\<close> only skips an insertion that would change nothing.
\<close>

lemma jaccard_offsets:
  "fold (jaccard_step ys b) (py_range (- 1) 2) (I, I) =
     (I \<union> ({b - 1, b, b + 1} \<inter> set ys), I \<union> ({b - 1, b, b + 1} \<inter> set ys))"
  by (auto simp: py_range_offsets jaccard_step_def Let_def)

lemma jaccard_fold:
  "fold (\<lambda>boundary. fold (jaccard_step ys boundary) (py_range (- 1) 2)) xs (I, I) =
     (I \<union> spec_matched xs ys, I \<union> spec_matched xs ys)"
proof (induction xs arbitrary: I)
  case Nil
  then show ?case by (simp add: spec_matched_def)
next
  case (Cons b xs)
  have "I \<union> {b - 1, b, b + 1} \<inter> set ys \<union> spec_matched xs ys = I \<union> spec_matched (b # xs) ys"
    by (auto simp: spec_matched_def)
  then show ?case by (simp add: jaccard_offsets Cons.IH)
qed

lemma jaccard_loop_matched: "jaccard_loop xs ys = (spec_matched xs ys, spec_matched xs ys)"
  using jaccard_fold [of ys xs "{}"] by (simp add: jaccard_loop_def)

lemma card_spec_matched: "card (spec_matched xs ys) \<le> length ys"
proof -
  have "card (spec_matched xs ys) \<le> card (set ys)"
    by (rule card_mono) (auto simp: spec_matched_def)
  also have "\<dots> \<le> length ys" by (rule card_length)
  finally show ?thesis .
qed

lemma modified_jaccard_index_closed:
  "modified_jaccard_index xs ys =
     (let matched = spec_matched xs ys;
          unionSize = int (length xs) + int (length ys) - int (card matched)
      in if unionSize = 0 then 0 else real (card matched) / real_of_int unionSize)"
  by (simp add: modified_jaccard_index_def jaccard_loop_matched Let_def py_len_def)

lemma modified_jaccard_index_nonneg: "0 \<le> modified_jaccard_index xs ys"
proof -
  have "0 \<le> int (length xs) + int (length ys) - int (card (spec_matched xs ys))"
    using card_spec_matched [of xs ys] by linarith
  then show ?thesis
    by (simp add: modified_jaccard_index_closed Let_def)
qed

lemma modified_jaccard_index_10_20_30:
  assumes "distinct xs" "set xs = {10, 20, 30}" "distinct ys" "set ys = {11, 20, 31}"
  shows "modified_jaccard_index xs ys = 1"
proof -
  have m: "spec_matched xs ys = {11, 20, 31}"
    using assms by (auto simp: spec_matched_def)
  have "length xs = 3" "length ys = 3"
    using assms distinct_card [of xs] distinct_card [of ys] by auto
  then show ?thesis by (simp add: modified_jaccard_index_closed m)
qed

lemma modified_jaccard_index_5:
  assumes "distinct ys" "set ys = {4, 5, 6}"
  shows "modified_jaccard_index [5] ys = 3"
proof -
  have m: "spec_matched [5] ys = {4, 5, 6}"
    using assms by (auto simp: spec_matched_def)
  have "length ys = 3"
    using assms distinct_card [of ys] by auto
  then show ?thesis by (simp add: modified_jaccard_index_closed m)
qed

text \<open>
  Claim C3. For all boundary sets, in whatever order their elements are iterated,
  \<open>modified_jaccard_index\<close> returns \<open>|matched| / (|set1| + |set2| - |matched|)\<close>, or
  \<open>0\<close> when that union size is \<open>0\<close>, where the matched set collects every \<open>b + offset\<close>
  that lies in set 2, for \<open>b\<close> in set 1 and \<open>offset\<close> in \<open>{-1, 0, +1}\<close>, each counted
  once. In particular the index of \<open>{10, 20, 30}\<close> and \<open>{11, 20, 31}\<close> is \<open>1\<close>.
\<close>

theorem modified_jaccard_index_matched:
  "modified_jaccard_index set1 set2 =
     (let matched = spec_matched set1 set2;
          unionSize = int (length set1) + int (length set2) - int (card matched)
      in if unionSize = 0 then 0 else real (card matched) / real_of_int unionSize)
   \<and> (\<forall>xs ys. distinct xs \<and> set xs = {10, 20, 30} \<and> distinct ys \<and> set ys = {11, 20, 31}
        \<longrightarrow> modified_jaccard_index xs ys = 1)"
  using modified_jaccard_index_closed [of set1 set2] modified_jaccard_index_10_20_30
  by blast

theorem modified_jaccard_index_matched_witness:
  "distinct [10, 20, 30 :: int] \<and> distinct [11, 20, 31 :: int]
   \<and> spec_matched [10, 20, 30] [11, 20, 31] = {11, 20, 31}
   \<and> modified_jaccard_index [10, 20, 30] [11, 20, 31] = 1"
proof -
  have m: "spec_matched [10, 20, 30] [11, 20, 31] = {11, 20, 31}"
    by (auto simp: spec_matched_def)
  have "distinct [10, 20, 30 :: int] \<and> set [10, 20, 30 :: int] = {10, 20, 30}
      \<and> distinct [11, 20, 31 :: int] \<and> set [11, 20, 31 :: int] = {11, 20, 31}"
    by simp
  then have "modified_jaccard_index [10, 20, 30] [11, 20, 31] = 1"
    using modified_jaccard_index_matched [of "[10, 20, 30]" "[11, 20, 31]"] by blast
  then show ?thesis using m by simp
qed

text \<open>
  Claim C6. The index is directional: for the boundary sets \<open>{1}\<close> and \<open>{1, 2}\<close> the
  two argument orders give \<open>2\<close> and \<open>1/2\<close>.
\<close>

theorem modified_jaccard_index_directional:
  "\<exists>A B. distinct A \<and> distinct B \<and> modified_jaccard_index A B \<noteq> modified_jaccard_index B A"
proof (intro exI conjI)
  show "distinct [1 :: int]" and "distinct [1, 2 :: int]" by simp_all
  show "modified_jaccard_index [1] [1, 2] \<noteq> modified_jaccard_index [1, 2] [1]"
    by (simp add: modified_jaccard_index_def jaccard_loop_def jaccard_step_def
        py_range_offsets py_len_def Let_def)
qed

text \<open>
  Claim C10. The index is never negative, and it is not bounded by \<open>1\<close>: for the
  boundary sets \<open>{5}\<close> and \<open>{4, 5, 6}\<close>, the one boundary of set 1 matches the three
  boundaries of set 2 and the index is \<open>3\<close>.
\<close>

theorem modified_jaccard_index_range:
  "0 \<le> modified_jaccard_index set1 set2
   \<and> (\<forall>ys. distinct ys \<and> set ys = {4, 5, 6} \<longrightarrow> modified_jaccard_index [5] ys = 3)
   \<and> (\<exists>xs ys. distinct xs \<and> distinct ys \<and> 1 < modified_jaccard_index xs ys)"
proof -
  have "distinct [5 :: int] \<and> distinct [4, 5, 6 :: int]
      \<and> 1 < modified_jaccard_index [5] [4, 5, 6]"
    using modified_jaccard_index_5 [of "[4, 5, 6]"] by simp
  then have "\<exists>xs ys. distinct xs \<and> distinct ys \<and> 1 < modified_jaccard_index xs ys"
    by blast
  then show ?thesis
    using modified_jaccard_index_nonneg [of set1 set2] modified_jaccard_index_5 by blast
qed

theorem modified_jaccard_index_range_witness:
  "distinct [4, 5, 6 :: int] \<and> set [4, 5, 6 :: int] = {4, 5, 6}
   \<and> modified_jaccard_index [5] [4, 5, 6] = 3
   \<and> 0 \<le> modified_jaccard_index [5] [4, 5, 6]"
  using modified_jaccard_index_range [of "[5]" "[4, 5, 6]"] by simp

subsection \<open>Properties of the epsilon estimation\<close>

lemma distortions_loop_values:
  assumes "\<forall>i. 1 \<le> i \<and> i < length ks \<longrightarrow> el_distortion A ks i = Inr (D i)"
  shows "distortions_loop A ks = Inr (map D [1..<length ks])"
proof -
  have "distortions_loop A ks = Inr ([] @ map (\<lambda>i. D (nat i)) (py_range 1 (py_len ks)))"
    unfolding distortions_loop_def
  proof (rule for_each_map)
    fix i s assume "i \<in> set (py_range 1 (py_len ks))"
    then have i: "1 \<le> i" "i < int (length ks)" by (auto simp: py_range_def py_len_def)
    then have "1 \<le> nat i \<and> nat i < length ks" by linarith
    then have "el_distortion A ks (nat i) = Inr (D (nat i))" using assms by blast
    then have "el_pow2 A (el_sub A (ks ! nat i) (ks ! nat (i - 1))) = Inr (D (nat i))"
      using i by (simp add: el_distortion_def nat_diff_distrib)
    then show "(case py_getitem ks i of Inl e \<Rightarrow> Inl e
        | Inr a \<Rightarrow> (case py_getitem ks (i - 1) of Inl e \<Rightarrow> Inl e
            | Inr b \<Rightarrow> (case el_pow2 A (el_sub A a b) of Inl e \<Rightarrow> Inl e
                | Inr distortion \<Rightarrow> Inr (s @ [distortion])))) = Inr (s @ [D (nat i)])"
      using i by (simp add: py_getitem_nth)
  qed
  also have "map (\<lambda>i. D (nat i)) (py_range 1 (py_len ks)) = map D [1..<length ks]"
    by (rule nth_equalityI) (auto simp: py_range_def py_len_def nat_add_distrib)
  finally show ?thesis by simp
qed

lemma distortions_loop_short: "length ks < 2 \<Longrightarrow> distortions_loop A ks = Inr []"
  by (simp add: distortions_loop_def py_range_def py_len_def)

lemma py_objects_snoc: "py_objects (ds @ [d]) = py_objects ds @ [(length ds, d)]"
  by (simp add: py_objects_def)

lemma py_objects_Nil_iff: "py_objects ds = [] \<longleftrightarrow> ds = []"
  by (cases ds) (simp_all add: py_objects_def upt_conv_Cons)

lemma py_objects_single: "py_objects [d] = [(0, d)]"
  by (simp add: py_objects_def)

lemma py_max_snoc:
  assumes "py_max gt (py_objects ds) = Inr m"
  shows "py_max gt (py_objects (ds @ [d])) = Inr (if gt d (snd m) then (length ds, d) else m)"
proof (cases "py_objects ds")
  case Nil
  then show ?thesis using assms by simp
next
  case (Cons x xs)
  then show ?thesis using assms by (auto simp: py_objects_snoc)
qed

lemma py_max_position:
  "ds \<noteq> [] \<Longrightarrow> \<exists>p<length ds. py_max gt (py_objects ds) = Inr (p, ds ! p)"
proof (induction ds rule: rev_nonempty_induct)
  case (single d)
  then show ?case by (simp add: py_objects_single)
next
  case (snoc d ds)
  then obtain p where p: "p < length ds" "py_max gt (py_objects ds) = Inr (p, ds ! p)" by blast
  show ?case
  proof (cases "gt d (ds ! p)")
    case True
    then have "py_max gt (py_objects (ds @ [d])) = Inr (length ds, (ds @ [d]) ! length ds)"
      using py_max_snoc [OF p(2), of d] by simp
    then show ?thesis by (intro exI [of _ "length ds"]) simp
  next
    case False
    then have "py_max gt (py_objects (ds @ [d])) = Inr (p, (ds @ [d]) ! p)"
      using py_max_snoc [OF p(2), of d] p(1) by (simp add: nth_append)
    then show ?thesis using p(1) by (intro exI [of _ p]) simp
  qed
qed

lemma py_max_first_maximum:
  fixes val :: "'f \<Rightarrow> real"
  shows "ds \<noteq> [] \<Longrightarrow> (\<forall>a\<in>set ds. \<forall>b\<in>set ds. gt a b \<longleftrightarrow> val b < val a) \<Longrightarrow>
    \<exists>p<length ds. py_max gt (py_objects ds) = Inr (p, ds ! p)
      \<and> (\<forall>i<length ds. val (ds ! i) \<le> val (ds ! p)) \<and> (\<forall>i<p. val (ds ! i) < val (ds ! p))"
proof (induction ds rule: rev_nonempty_induct)
  case (single d)
  then show ?case by (simp add: py_objects_single)
next
  case (snoc d ds)
  then obtain p where p: "p < length ds" "py_max gt (py_objects ds) = Inr (p, ds ! p)"
    "\<forall>i<length ds. val (ds ! i) \<le> val (ds ! p)" "\<forall>i<p. val (ds ! i) < val (ds ! p)"
    by auto
  have gt: "gt d (ds ! p) \<longleftrightarrow> val (ds ! p) < val d"
    using snoc.prems p(1) by simp
  show ?case
  proof (cases "gt d (ds ! p)")
    case True
    then have m: "py_max gt (py_objects (ds @ [d])) = Inr (length ds, (ds @ [d]) ! length ds)"
      using py_max_snoc [OF p(2), of d] by simp
    have "val ((ds @ [d]) ! i) \<le> val d" if "i < length (ds @ [d])" for i
      using that p(3) True gt by (cases "i < length ds") (auto simp: nth_append intro: less_imp_le order_trans)
    moreover have "val ((ds @ [d]) ! i) < val d" if "i < length ds" for i
      using that p(3) True gt by (auto simp: nth_append intro: le_less_trans)
    ultimately show ?thesis using m by (intro exI [of _ "length ds"]) simp
  next
    case False
    then have m: "py_max gt (py_objects (ds @ [d])) = Inr (p, (ds @ [d]) ! p)"
      using py_max_snoc [OF p(2), of d] p(1) by (simp add: nth_append)
    have "val ((ds @ [d]) ! i) \<le> val (ds ! p)" if "i < length (ds @ [d])" for i
      using that p(3) False gt by (cases "i < length ds") (auto simp: nth_append)
    moreover have "val ((ds @ [d]) ! i) < val (ds ! p)" if "i < p" for i
      using that p(1,4) by (simp add: nth_append)
    ultimately show ?thesis using m p(1) by (intro exI [of _ p]) (simp add: nth_append)
  qed
qed

lemma py_max_constant:
  "ds \<noteq> [] \<Longrightarrow> (\<forall>a\<in>set ds. \<not> gt a (ds ! 0)) \<Longrightarrow> py_max gt (py_objects ds) = Inr (0, ds ! 0)"
proof (induction ds rule: rev_nonempty_induct)
  case (single d)
  then show ?case by (simp add: py_objects_single)
next
  case (snoc d ds)
  have "(ds @ [d]) ! 0 = ds ! 0" using snoc.hyps by (simp add: nth_append)
  then have "py_max gt (py_objects ds) = Inr (0, ds ! 0)" "\<not> gt d (ds ! 0)"
    using snoc by auto
  then show ?case
    using py_max_snoc [of gt ds "(0, ds ! 0)" d] \<open>(ds @ [d]) ! 0 = ds ! 0\<close> by simp
qed

lemma py_list_index_found:
  "p < length ds \<Longrightarrow>
   \<exists>j\<le>p. py_list_index eq (zip [k..<k + length ds] ds) (k + p, v) = Inr (int j)
     \<and> (\<forall>i<j. \<not> eq (ds ! i) v) \<and> (j < p \<longrightarrow> eq (ds ! j) v)"
proof (induction ds arbitrary: k p)
  case Nil
  then show ?case by simp
next
  case (Cons x xs)
  have z: "zip [k..<k + length (x # xs)] (x # xs) = (k, x) # zip [Suc k..<Suc k + length xs] xs"
  proof -
    have "[k..<k + length (x # xs)] = k # [Suc k..<Suc k + length xs]"
      by (simp add: upt_conv_Cons del: upt_Suc)
    then show ?thesis by simp
  qed
  show ?case
  proof (cases "p = 0 \<or> eq x v")
    case True
    then show ?thesis unfolding z by (intro exI [of _ 0]) auto
  next
    case False
    then obtain q where q: "p = Suc q" by (cases p) auto
    then have "q < length xs" using Cons.prems by simp
    from Cons.IH [OF this, of "Suc k"]
    obtain j where j: "j \<le> q"
      "py_list_index eq (zip [Suc k..<Suc k + length xs] xs) (Suc k + q, v) = Inr (int j)"
      "\<forall>i<j. \<not> eq (xs ! i) v" "j < q \<longrightarrow> eq (xs ! j) v"
      by blast
    have "py_list_index eq (zip [k..<k + length (x # xs)] (x # xs)) (k + p, v)
        = Inr (int (Suc j))"
      unfolding z using False q j(2) by simp
    moreover have "\<forall>i<Suc j. \<not> eq ((x # xs) ! i) v"
      using False j(3) by (auto simp: nth_Cons split: nat.splits)
    ultimately show ?thesis using j(1,4) q by (intro exI [of _ "Suc j"]) auto
  qed
qed

lemma py_list_index_object:
  assumes "p < length ds"
  shows "\<exists>j\<le>p. py_list_index eq (py_objects ds) (p, ds ! p) = Inr (int j)
     \<and> (\<forall>i<j. \<not> eq (ds ! i) (ds ! p)) \<and> (j < p \<longrightarrow> eq (ds ! j) (ds ! p))"
  using py_list_index_found [OF assms, of eq 0 "ds ! p"] by (simp add: py_objects_def)

lemma py_list_index_nonneg: "py_list_index eq xs v = Inr k \<Longrightarrow> 0 \<le> k"
  by (induction xs arbitrary: k) (auto split: if_splits sum.splits)

lemma find_elbow_point_short: "length ks < 2 \<Longrightarrow> find_elbow_point A ks = Inl ValueError"
  by (simp add: find_elbow_point_def distortions_loop_short py_objects_def)

lemma find_elbow_point_ge_1: "find_elbow_point A ks = Inr r \<Longrightarrow> 1 \<le> r"
  by (auto simp: find_elbow_point_def split: sum.splits dest: py_list_index_nonneg)

lemma find_elbow_point_raises:
  "distortions_loop A ks = Inl e \<Longrightarrow> find_elbow_point A ks = Inl e"
  by (simp add: find_elbow_point_def)

text \<open>The result in terms of the position that max selects.\<close>

lemma find_elbow_point_index:
  assumes "distortions_loop A ks = Inr ds" "p < length ds"
    "py_max (el_gt A) (py_objects ds) = Inr (p, ds ! p)"
  shows "\<exists>j\<le>p. find_elbow_point A ks = Inr (int j + 1)
     \<and> (\<forall>i<j. \<not> el_eq A (ds ! i) (ds ! p)) \<and> (j < p \<longrightarrow> el_eq A (ds ! j) (ds ! p))"
proof -
  from py_list_index_object [OF assms(2), of "el_eq A"]
  obtain j where j: "j \<le> p" "py_list_index (el_eq A) (py_objects ds) (p, ds ! p) = Inr (int j)"
    "\<forall>i<j. \<not> el_eq A (ds ! i) (ds ! p)" "j < p \<longrightarrow> el_eq A (ds ! j) (ds ! p)"
    by blast
  have "find_elbow_point A ks = Inr (int j + 1)"
    by (simp add: find_elbow_point_def assms(1,3) j(2))
  then show ?thesis using j by blast
qed

lemma py_slice_butlast: "py_slice c 0 (- 1) = butlast c"
proof -
  have "nat (int (length c) - 1) = length c - 1" by simp
  then show ?thesis
    by (cases "c = []") (auto simp: py_slice_def py_len_def Let_def butlast_conv_take)
qed

lemma py_slice_tl: "py_slice c 1 (py_len c) = tl c"
  by (cases c) (auto simp: py_slice_def py_len_def Let_def drop_Suc)

lemma py_slice_chunk:
  assumes "0 \<le> a" "0 \<le> n"
  shows "py_slice fs a (a + n) = take (nat n) (drop (nat a) fs)"
proof -
  have "py_slice fs a (a + n) = drop (nat a) (take (nat (a + n)) fs)"
    using assms by (auto simp: py_slice_def py_len_def Let_def min_def)
  also have "\<dots> = take (nat n) (drop (nat a) fs)"
    using assms by (simp add: drop_take nat_add_distrib)
  finally show ?thesis .
qed

lemma np_subtract_differences:
  "np_subtract (np_sub N) (butlast c) (tl c) = Inr (np_differences N c)"
  by (simp add: np_subtract_def np_differences_def)

lemma k_distances_body:
  assumes "1 \<le> w" "0 \<le> k"
  shows "(let start_idx = k * 2 * w;
           end_idx = start_idx + 2 * w;
           window_data = py_slice fs start_idx end_idx
       in case np_subtract (np_sub N) (py_slice window_data 0 (- 1))
                 (py_slice window_data 1 (py_len window_data)) of
            Inl e \<Rightarrow> Inl e
          | Inr difference \<Rightarrow> Inr (s @ [np_linalg_norm N difference]))
     = Inr (s @ [np_linalg_norm N (np_differences N (spec_chunk fs (2 * nat w) (nat k)))])"
proof -
  have "py_slice fs (k * 2 * w) (k * 2 * w + 2 * w) = spec_chunk fs (2 * nat w) (nat k)"
    using assms by (simp add: py_slice_chunk spec_chunk_def nat_mult_distrib mult.assoc)
  then show ?thesis
    by (simp add: Let_def py_slice_butlast py_slice_tl np_subtract_differences)
qed

lemma k_distances_loop_spec:
  assumes "1 \<le> w"
  shows "k_distances_loop N fs w n =
    Inr (map (\<lambda>k. np_linalg_norm N (np_differences N (spec_chunk fs (2 * nat w) k))) [0..<nat n])"
proof -
  have "k_distances_loop N fs w n = Inr ([] @ map (\<lambda>k. np_linalg_norm N
      (np_differences N (spec_chunk fs (2 * nat w) (nat k)))) (py_range 0 n))"
    unfolding k_distances_loop_def
  proof (rule for_each_map)
    fix k s assume "k \<in> set (py_range 0 n)"
    then have "0 \<le> k" by (simp add: py_range_def)
    with assms show "(let start_idx = k * 2 * w;
           end_idx = start_idx + 2 * w;
           window_data = py_slice fs start_idx end_idx
       in case np_subtract (np_sub N) (py_slice window_data 0 (- 1))
                 (py_slice window_data 1 (py_len window_data)) of
            Inl e \<Rightarrow> Inl e
          | Inr difference \<Rightarrow> Inr (s @ [np_linalg_norm N difference]))
     = Inr (s @ [np_linalg_norm N (np_differences N (spec_chunk fs (2 * nat w) (nat k)))])"
      by (rule k_distances_body)
  qed
  also have "map (\<lambda>k. np_linalg_norm N (np_differences N (spec_chunk fs (2 * nat w) (nat k))))
        (py_range 0 n)
      = map (\<lambda>k. np_linalg_norm N (np_differences N (spec_chunk fs (2 * nat w) k))) [0..<nat n]"
    by (rule map_int_range)
  finally show ?thesis by simp
qed

lemma num_windows_nat:
  "1 \<le> w \<Longrightarrow> nat (int (length fs) div (2 * w)) = length fs div (2 * nat w)"
proof -
  assume w: "1 \<le> w"
  have "int (length fs) div (2 * int (nat w)) = int (length fs div (2 * nat w))"
    by (simp add: zdiv_int)
  then show ?thesis using w by simp
qed

lemma k_distances_series_spec:
  assumes "1 \<le> w"
  shows "k_distances_series N fs w = Inr (np_k_distances N fs (nat w))"
  using assms
  by (simp add: k_distances_series_def py_floordiv_def py_len_def k_distances_loop_spec
      np_k_distances_def num_windows_nat)

lemma concat_chunks:
  "concat (map (spec_chunk fs n) [0..<m]) = take (m * n) fs"
proof (induction m)
  case 0
  then show ?case by simp
next
  case (Suc m)
  have "take (m * n + n) fs = take (m * n) fs @ take n (drop (m * n) fs)"
    by (rule take_add)
  then show ?case using Suc by (simp add: spec_chunk_def add.commute)
qed

lemma length_spec_chunk:
  "k < length fs div n \<Longrightarrow> length (spec_chunk fs n k) = n"
proof -
  assume k: "k < length fs div n"
  then have "Suc k * n \<le> length fs div n * n"
    by (intro mult_le_mono1) simp
  also have "\<dots> \<le> length fs" by (rule div_times_less_eq_dividend)
  finally have "Suc k * n \<le> length fs" .
  then show ?thesis by (simp add: spec_chunk_def)
qed

lemma spec_chunk_map: "spec_chunk (map f fs) n k = map f (spec_chunk fs n k)"
  by (simp add: spec_chunk_def take_map drop_map)

text \<open>Where the arithmetic is exact, numpy's entry is the norm of the first difference.\<close>

lemma exact_on_entry:
  assumes "exact_on N val fval c"
  shows "fval (np_linalg_norm N (np_differences N c))
       = spec_euclidean_norm (spec_first_difference (map val c))"
proof -
  have sub: "val (np_sub N (c ! j) (c ! Suc j)) = val (c ! j) - val (c ! Suc j)"
    if "j < length c - 1" for j
    using assms that by (simp add: exact_on_def list_all_iff)
  have "map (\<lambda>x. x\<^sup>2) (map val (np_differences N c))
      = map (\<lambda>x. x\<^sup>2) (spec_first_difference (map val c))"
  proof (rule nth_equalityI)
    show "length (map (\<lambda>x. x\<^sup>2) (map val (np_differences N c)))
        = length (map (\<lambda>x. x\<^sup>2) (spec_first_difference (map val c)))"
      by (simp add: np_differences_def spec_first_difference_def)
  next
    fix j assume "j < length (map (\<lambda>x. x\<^sup>2) (map val (np_differences N c)))"
    then have j: "j < length c - 1" by (simp add: np_differences_def)
    then have "(val (np_sub N (c ! j) (c ! Suc j)))\<^sup>2 = (val (c ! Suc j) - val (c ! j))\<^sup>2"
      by (simp add: sub power2_commute)
    then show "map (\<lambda>x. x\<^sup>2) (map val (np_differences N c)) ! j
        = map (\<lambda>x. x\<^sup>2) (spec_first_difference (map val c)) ! j"
      using j by (simp add: np_differences_def spec_first_difference_def nth_butlast nth_tl)
  qed
  then have "spec_euclidean_norm (map val (np_differences N c))
      = spec_euclidean_norm (spec_first_difference (map val c))"
    by (simp add: spec_euclidean_norm_def)
  then show ?thesis using assms by (simp add: exact_on_def)
qed

lemma exact_on_series:
  assumes "list_all (\<lambda>k. exact_on N val fval (spec_chunk fs (2 * w) k)) [0..<length fs div (2 * w)]"
  shows "map fval (np_k_distances N fs w) = spec_k_distances (map val fs) w"
  using assms
  by (simp add: np_k_distances_def spec_k_distances_def list_all_iff exact_on_entry
      spec_chunk_map)

text \<open>
  Claim C4, as the code has it. For every feature sequence and every window length
  \<open>\<ge> 1\<close> (in particular when the sequence holds at least \<open>2 \<sqdot> windowLength\<close>
  values), the series that \<open>k_distance\<close> builds has exactly
  \<open>len(features) // (2 \<sqdot> windowLength)\<close> entries, one per chunk; the chunks have
  \<open>2 \<sqdot> windowLength\<close> values each and follow one another without overlap (joined, they
  are a prefix of the features). The entry of a chunk \<open>c\<close> is \<^verbatim>\<open>np.linalg.norm\<close>
  of \<^verbatim>\<open>c[:-1] - c[1:]\<close> as numpy computes both in the dtype of the array. It is the
  Euclidean norm of the first difference of the chunk on every chunk where this arithmetic
  is exact.
\<close>

theorem k_distances_series_chunks:
  assumes "1 \<le> windowLength"
  shows "k_distances_series N features windowLength
           = Inr (np_k_distances N features (nat windowLength))
       \<and> int (length (np_k_distances N features (nat windowLength)))
           = py_len features div (2 * windowLength)
       \<and> list_all (\<lambda>k. length (spec_chunk features (2 * nat windowLength) k) = 2 * nat windowLength)
           [0..<length features div (2 * nat windowLength)]
       \<and> concat (map (spec_chunk features (2 * nat windowLength))
             [0..<length features div (2 * nat windowLength)])
           = take (length features div (2 * nat windowLength) * (2 * nat windowLength)) features
       \<and> (list_all (\<lambda>k. exact_on N val fval (spec_chunk features (2 * nat windowLength) k))
             [0..<length features div (2 * nat windowLength)]
           \<longrightarrow> map fval (np_k_distances N features (nat windowLength))
                 = spec_k_distances (map val features) (nat windowLength))"
proof -
  have "int (length features) div (2 * int (nat windowLength))
      = int (length features div (2 * nat windowLength))"
    by (simp add: zdiv_int)
  then have "int (length (np_k_distances N features (nat windowLength)))
      = py_len features div (2 * windowLength)"
    using assms by (simp add: np_k_distances_def py_len_def)
  then show ?thesis
    using assms
    by (simp add: k_distances_series_spec concat_chunks length_spec_chunk list_all_iff
        exact_on_series)
qed

lemma wrap64_small: "- (2 ^ 63) \<le> x \<Longrightarrow> x < 2 ^ 63 \<Longrightarrow> wrap64 x = x"
  by (simp add: wrap64_def)

theorem k_distances_series_chunks_witness:
  "(1 :: int) \<le> 1
   \<and> list_all (\<lambda>k. exact_on unrounded_int64_numerics real_of_int (\<lambda>x. x) (spec_chunk [0, 1, 0, 0, 5] 2 k))
        [0, 1]
   \<and> k_distances_series unrounded_int64_numerics [0, 1, 0, 0, 5] 1 = Inr [1, 0]
   \<and> spec_k_distances [0, 1, 0, 0, 5] 1 = [1, 0]"
proof -
  have c0: "spec_chunk [0, 1, 0, 0, 5 :: int] 2 0 = [0, 1]"
    and c1: "spec_chunk [0, 1, 0, 0, 5 :: int] 2 (Suc 0) = [0, 0]"
    by (simp_all add: spec_chunk_def numeral_2_eq_2)
  have w: "wrap64 (- 1) = - 1" "wrap64 0 = 0"
    by (simp_all add: wrap64_small)
  have d0: "np_differences unrounded_int64_numerics [0, 1] = [- 1]"
    and d1: "np_differences unrounded_int64_numerics [0, 0] = [0]"
    by (simp_all add: np_differences_def unrounded_int64_numerics_def w)
  have n: "[0..<length [0, 1, 0, 0, 5 :: int] div (2 * nat 1)] = [0, Suc 0]"
    by (simp add: upt_rec)
  have s: "np_k_distances unrounded_int64_numerics [0, 1, 0, 0, 5] (nat 1) = [1, 0]"
    unfolding np_k_distances_def n by (simp add: c0 c1 d0 d1) (simp add: unrounded_int64_numerics_def)
  have e: "list_all (\<lambda>k. exact_on unrounded_int64_numerics real_of_int (\<lambda>x. x)
      (spec_chunk [0, 1, 0, 0, 5] (2 * nat 1) k)) [0..<length [0, 1, 0, 0, 5 :: int] div (2 * nat 1)]"
    unfolding n by (simp add: c0 c1 exact_on_def d0 d1)
      (simp add: unrounded_int64_numerics_def spec_euclidean_norm_def w)
  have "spec_k_distances (map real_of_int [0, 1, 0, 0, 5]) (nat 1) = [1, 0]"
    using k_distances_series_chunks [of 1 unrounded_int64_numerics "[0, 1, 0, 0, 5]" real_of_int "\<lambda>x. x"]
      e s by simp
  moreover have "k_distances_series unrounded_int64_numerics [0, 1, 0, 0, 5] 1 = Inr [1, 0]"
    using k_distances_series_chunks [of 1 unrounded_int64_numerics "[0, 1, 0, 0, 5]" real_of_int "\<lambda>x. x"]
      s by simp
  ultimately show ?thesis using e unfolding n by simp
qed

lemma int64_series_pair:
  "k_distances_series unrounded_int64_numerics [a, b] 1 = Inr [\<bar>real_of_int (wrap64 (a - b))\<bar>]"
proof -
  have "np_differences unrounded_int64_numerics [a, b] = [wrap64 (a - b)]"
    by (simp add: np_differences_def unrounded_int64_numerics_def)
  moreover have "np_linalg_norm unrounded_int64_numerics [x] = \<bar>real_of_int x\<bar>" for x
    by (simp add: unrounded_int64_numerics_def)
  ultimately have "np_k_distances unrounded_int64_numerics [a, b] (nat 1) = [\<bar>real_of_int (wrap64 (a - b))\<bar>]"
    by (simp add: np_k_distances_def spec_chunk_def)
  then show ?thesis by (simp add: k_distances_series_spec)
qed

lemma spec_series_pair: "spec_k_distances [a, b] 1 = [\<bar>b - a\<bar>]"
  by (simp add: spec_k_distances_def spec_chunk_def spec_first_difference_def
      spec_euclidean_norm_def)

text \<open>
  Claim C4 as stated gives the Euclidean norm of the first difference for every input. For
  the \<^verbatim>\<open>int64\<close> features \<open>5 \<sqdot> 2\<^sup>6\<^sup>0\<close> and \<open>-5 \<sqdot> 2\<^sup>6\<^sup>0\<close> and window length \<open>1\<close>
  the subtraction wraps around to \<open>-6 \<sqdot> 2\<^sup>6\<^sup>0\<close>: the entry is \<open>6 \<sqdot> 2\<^sup>6\<^sup>0\<close>, and the
  Euclidean norm of the first difference is \<open>10 \<sqdot> 2\<^sup>6\<^sup>0\<close>. Every number of this
  example is representable as a float, so that numpy's norm is computed without rounding.
\<close>

theorem k_distances_series_int64_wraps:
  "k_distances_series unrounded_int64_numerics [5 * 2 ^ 60, - (5 * 2 ^ 60)] 1 = Inr [6 * 2 ^ 60]
   \<and> spec_k_distances [5 * 2 ^ 60, - (5 * 2 ^ 60)] 1 = [10 * 2 ^ 60]"
proof -
  have "wrap64 (5 * 2 ^ 60 - - (5 * 2 ^ 60)) = - (6 * 2 ^ 60)"
    by (simp add: wrap64_def)
  then have "k_distances_series unrounded_int64_numerics [5 * 2 ^ 60, - (5 * 2 ^ 60)] 1 = Inr [6 * 2 ^ 60]"
    by (simp only: int64_series_pair) simp
  moreover have "spec_k_distances [5 * 2 ^ 60, - (5 * 2 ^ 60)] 1 = [10 * 2 ^ 60]"
    by (simp only: spec_series_pair) simp
  ultimately show ?thesis by simp
qed

text \<open>
  Claim C5, as the code has it. Take a list of at least two k-distances such that no
  squaring of line 118 raises, and call \<open>D i\<close> the distortion
  \<^verbatim>\<open>(k_distances[i] - k_distances[i-1]) ** 2\<close> that the elements' arithmetic gives for
  \<open>i\<close> in \<open>[1, len)\<close>. Then the loop collects these distortions, and
  \<open>find_elbow_point\<close> returns, without raising, a position \<open>r\<close> in
  \<open>[1, len - 1]\<close>. Where \<^verbatim>\<open>>\<close> and \<^verbatim>\<open>==\<close> compare the distortions as the
  numbers \<open>val (D i)\<close> (none of them is \<^verbatim>\<open>nan\<close>), \<open>r\<close> is the position of the
  first maximal distortion: the 0-based argmax plus one. When all k-distances are equal it
  returns \<open>1\<close>.
\<close>

theorem find_elbow_point_argmax:
  fixes val :: "'f \<Rightarrow> real"
  assumes "2 \<le> length kDistances"
    and "\<forall>i. 1 \<le> i \<and> i < length kDistances \<longrightarrow> el_distortion A kDistances i = Inr (D i)"
  shows "distortions_loop A kDistances = Inr (map D [1..<length kDistances])
       \<and> (\<exists>r. find_elbow_point A kDistances = Inr (int r)
            \<and> 1 \<le> r \<and> r \<le> length kDistances - 1
            \<and> ((\<forall>i j. 1 \<le> i \<and> i < length kDistances \<and> 1 \<le> j \<and> j < length kDistances
                    \<longrightarrow> (el_gt A (D i) (D j) \<longleftrightarrow> val (D j) < val (D i))
                      \<and> (el_eq A (D i) (D j) \<longleftrightarrow> val (D i) = val (D j)))
                 \<longrightarrow> (\<forall>i. 1 \<le> i \<and> i < length kDistances \<longrightarrow> val (D i) \<le> val (D r))
                   \<and> (\<forall>i. 1 \<le> i \<and> i < r \<longrightarrow> val (D i) < val (D r)))
            \<and> ((\<forall>i<length kDistances. kDistances ! i = kDistances ! 0)
                  \<and> \<not> el_gt A (D 1) (D 1) \<longrightarrow> r = 1))"
proof -
  define ds where "ds = map D [1..<length kDistances]"
  have dl: "distortions_loop A kDistances = Inr ds"
    using distortions_loop_values [OF assms(2)] by (simp add: ds_def)
  have ne: "ds \<noteq> []" using assms(1) by (auto simp: ds_def)
  have len: "length ds = length kDistances - 1" by (simp add: ds_def)
  have nth: "ds ! i = D (Suc i)" if "i < length kDistances - 1" for i
    using that by (simp add: ds_def)
  from py_max_position [OF ne, of "el_gt A"]
  obtain p where p: "p < length ds" "py_max (el_gt A) (py_objects ds) = Inr (p, ds ! p)"
    by blast
  from find_elbow_point_index [OF dl p]
  obtain j where j: "j \<le> p" "find_elbow_point A kDistances = Inr (int j + 1)"
    "\<forall>i<j. \<not> el_eq A (ds ! i) (ds ! p)" "j < p \<longrightarrow> el_eq A (ds ! j) (ds ! p)"
    by blast
  have res: "find_elbow_point A kDistances = Inr (int (Suc j))" using j(2) by simp
  have range: "1 \<le> Suc j" "Suc j \<le> length kDistances - 1"
    using j(1) p(1) len by simp_all
  have ord_case: "(\<forall>i. 1 \<le> i \<and> i < length kDistances \<longrightarrow> val (D i) \<le> val (D (Suc j)))
      \<and> (\<forall>i. 1 \<le> i \<and> i < Suc j \<longrightarrow> val (D i) < val (D (Suc j)))"
    if ord: "\<forall>i j. 1 \<le> i \<and> i < length kDistances \<and> 1 \<le> j \<and> j < length kDistances
        \<longrightarrow> (el_gt A (D i) (D j) \<longleftrightarrow> val (D j) < val (D i))
          \<and> (el_eq A (D i) (D j) \<longleftrightarrow> val (D i) = val (D j))"
  proof -
    have in_ds: "\<exists>i. 1 \<le> i \<and> i < length kDistances \<and> a = D i" if "a \<in> set ds" for a
      using that by (auto simp: ds_def)
    have "\<forall>a\<in>set ds. \<forall>b\<in>set ds. el_gt A a b \<longleftrightarrow> val b < val a"
      using ord in_ds by metis
    from py_max_first_maximum [OF ne this]
    obtain q where q: "q < length ds" "py_max (el_gt A) (py_objects ds) = Inr (q, ds ! q)"
      "\<forall>i<length ds. val (ds ! i) \<le> val (ds ! q)" "\<forall>i<q. val (ds ! i) < val (ds ! q)"
      by blast
    have "q = p" using q(2) p(2) by simp
    have "j = p"
    proof (rule ccontr)
      assume "j \<noteq> p"
      then have lt: "j < p" using j(1) by simp
      then have "el_eq A (ds ! j) (ds ! p)" using j(4) by simp
      moreover have "ds ! j \<in> set ds" "ds ! p \<in> set ds" using lt p(1) by simp_all
      ultimately have "val (ds ! j) = val (ds ! p)" using ord in_ds by metis
      moreover have "val (ds ! j) < val (ds ! p)" using q(4) lt \<open>q = p\<close> by blast
      ultimately show False by simp
    qed
    have "val (D i) \<le> val (D (Suc j))" if "1 \<le> i" "i < length kDistances" for i
    proof -
      have "i - 1 < length ds" using that len by simp
      then have "val (ds ! (i - 1)) \<le> val (ds ! p)"
        using q(3) \<open>q = p\<close> by blast
      moreover have "ds ! (i - 1) = D i" using that nth [of "i - 1"] by simp
      moreover have "ds ! p = D (Suc p)" using p(1) len nth by simp
      ultimately show ?thesis using \<open>j = p\<close> by simp
    qed
    moreover have "val (D i) < val (D (Suc j))" if "1 \<le> i" "i < Suc j" for i
    proof -
      have i: "i - 1 < p" using that \<open>j = p\<close> by simp
      then have "val (ds ! (i - 1)) < val (ds ! p)"
        using q(4) \<open>q = p\<close> by blast
      moreover have "ds ! (i - 1) = D i" using that i nth [of "i - 1"] p(1) len by simp
      moreover have "ds ! p = D (Suc p)" using p(1) len nth by simp
      ultimately show ?thesis using \<open>j = p\<close> by simp
    qed
    ultimately show ?thesis by blast
  qed
  have const_case: "Suc j = 1"
    if c: "(\<forall>i<length kDistances. kDistances ! i = kDistances ! 0) \<and> \<not> el_gt A (D 1) (D 1)"
  proof -
    have eqD: "D i = D 1" if "1 \<le> i" "i < length kDistances" for i
    proof -
      have "el_distortion A kDistances i = el_distortion A kDistances 1"
        using c that by (simp add: el_distortion_def)
      moreover have "el_distortion A kDistances i = Inr (D i)" using assms(2) that by blast
      moreover have "el_distortion A kDistances 1 = Inr (D 1)" using assms by simp
      ultimately show ?thesis by simp
    qed
    have all: "a = D 1" if "a \<in> set ds" for a
    proof -
      from that obtain i where "1 \<le> i" "i < length kDistances" "a = D i"
        by (auto simp: ds_def)
      then show ?thesis using eqD by blast
    qed
    have "ds ! 0 = D 1" using nth [of 0] assms(1) by simp
    then have "\<forall>a\<in>set ds. \<not> el_gt A a (ds ! 0)" using all c by metis
    then have "py_max (el_gt A) (py_objects ds) = Inr (0, ds ! 0)"
      using ne by (rule py_max_constant [where gt = "el_gt A", rotated])
    then have "p = 0" using p(2) by simp
    then show ?thesis using j(1) by simp
  qed
  show ?thesis
    apply (intro conjI exI [of _ "Suc j"])
    subgoal using dl by (simp add: ds_def)
    subgoal by (rule res)
    subgoal by simp
    subgoal by (rule range(2))
    subgoal by (rule impI) (rule ord_case, assumption)
    subgoal by (rule impI) (rule const_case, assumption)
    done
qed

theorem find_elbow_point_argmax_witness:
  "2 \<le> length [0, 1, 3, 3 :: int]
   \<and> el_distortion py_int_arith [0, 1, 3, 3] 1 = Inr 1
   \<and> el_distortion py_int_arith [0, 1, 3, 3] 2 = Inr 4
   \<and> el_distortion py_int_arith [0, 1, 3, 3] 3 = Inr 0
   \<and> distortions_loop py_int_arith [0, 1, 3, 3] = Inr [1, 4, 0]
   \<and> find_elbow_point py_int_arith [0, 1, 3, 3] = Inr 2
   \<and> find_elbow_point py_int_arith [2, 2, 2] = Inr 1"
proof -
  define D :: "nat \<Rightarrow> int" where "D i = ([0, 1, 3, 3] ! i - [0, 1, 3, 3] ! (i - 1))\<^sup>2" for i
  have h1: "2 \<le> length [0, 1, 3, 3 :: int]" by simp
  have h2: "\<forall>i. 1 \<le> i \<and> i < length [0, 1, 3, 3 :: int]
      \<longrightarrow> el_distortion py_int_arith [0, 1, 3, 3] i = Inr (D i)"
    by (simp add: el_distortion_def py_int_arith_def D_def)
  have "[1..<length [0, 1, 3, 3 :: int]] = [1, 2, 3]"
    by (simp add: upt_rec)
  then have "map D [1..<length [0, 1, 3, 3 :: int]] = [1, 4, 0]"
    by (simp add: D_def)
  then have dl: "distortions_loop py_int_arith [0, 1, 3, 3] = Inr [1, 4, 0]"
    using find_elbow_point_argmax [OF h1 h2, of real_of_int] by simp
  have o: "py_objects [1, 4, 0 :: int] = [(0, 1), (1, 4), (2, 0)]"
    by (simp add: py_objects_def upt_rec)
  have "find_elbow_point py_int_arith [0, 1, 3, 3] = Inr 2"
    by (simp add: find_elbow_point_def dl o) (simp add: py_int_arith_def)
  moreover have "find_elbow_point py_int_arith [2, 2, 2] = Inr 1"
    by (simp add: find_elbow_point_def distortions_loop_def py_range_def py_len_def
        py_getitem_def axis_index_def upto_rec1 py_int_arith_def py_objects_def upt_rec)
  moreover have "el_distortion py_int_arith [0, 1, 3, 3] 1 = Inr 1"
    "el_distortion py_int_arith [0, 1, 3, 3] 2 = Inr 4"
    "el_distortion py_int_arith [0, 1, 3, 3] 3 = Inr 0"
    by (simp_all add: el_distortion_def py_int_arith_def)
  ultimately show ?thesis using dl by simp
qed

text \<open>
  Claim C5 as stated has the function return for every list of at least two elements. On
  the Python floats \<open>0.0\<close> and \<open>2\<^sup>6\<^sup>0\<^sup>0\<close> the difference is \<open>2\<^sup>6\<^sup>0\<^sup>0\<close>, exactly, and its
  square is out of the range of floats: line 118 raises \<^verbatim>\<open>OverflowError\<close>.
\<close>

theorem find_elbow_point_float_overflow:
  "find_elbow_point unrounded_float_arith [0, 2 ^ 600] = Inl OverflowError"
proof -
  have "el_pow2 unrounded_float_arith (el_sub unrounded_float_arith (2 ^ 600) 0) = Inl OverflowError"
    by (simp add: unrounded_float_arith_def)
  then have "distortions_loop unrounded_float_arith [0, 2 ^ 600] = Inl OverflowError"
    by (simp add: distortions_loop_def py_range_def py_len_def py_getitem_def axis_index_def)
  then show ?thesis by (rule find_elbow_point_raises)
qed

text \<open>
  Claim C8, as the code has it. For a feature sequence shorter than
  \<open>2 \<sqdot> windowLength\<close> no chunk is formed, the distortion list is empty, and
  \<open>k_distance\<close> fails with the built-in \<^verbatim>\<open>ValueError\<close> that \<^verbatim>\<open>max\<close> raises
  on an empty list; it does not return \<open>0\<close>.
\<close>

theorem k_distance_short_features:
  assumes "int (length features) < 2 * windowLength"
  shows "k_distance N features windowLength = Inl ValueError"
proof -
  have "int (length features) div (2 * windowLength) = 0"
    using assms by (simp add: div_pos_pos_trivial)
  moreover have "2 * windowLength \<noteq> 0" using assms by auto
  ultimately show ?thesis
    by (simp add: k_distance_def k_distances_series_def py_floordiv_def py_len_def
        k_distances_loop_def py_range_def find_elbow_point_short)
qed

theorem k_distance_short_features_witness:
  "int (length [1, 2, 3 :: int]) < 2 * 2 \<and> k_distance unrounded_int64_numerics [1, 2, 3] 2 = Inl ValueError"
  using k_distance_short_features [of "[1, 2, 3 :: int]" 2 unrounded_int64_numerics] by simp

text \<open>
  Claim C8 as stated names an \<^verbatim>\<open>InsufficientDataError\<close>. For three features and
  window length \<open>2\<close> the exception raised is not of that kind.
\<close>

theorem k_distance_no_insufficient_data_error:
  "k_distance unrounded_int64_numerics [1, 2, 3] 2 \<noteq> Inl InsufficientDataError"
  by (simp add: k_distance_def k_distances_series_def py_floordiv_def py_len_def
      k_distances_loop_def py_range_def find_elbow_point_short)

lemma float64_distortion:
  "el_distortion (float64_arith N) ks i
     = Inr (f64_square N (f64_sub N (ks ! i) (ks ! (i - 1))))"
  by (simp add: el_distortion_def float64_arith_def)

lemma find_elbow_point_returns:
  "(\<exists>r. find_elbow_point (float64_arith N) ks = Inr r) \<longleftrightarrow> 2 \<le> length ks"
proof (cases "2 \<le> length ks")
  case True
  have "\<forall>i. 1 \<le> i \<and> i < length ks \<longrightarrow> el_distortion (float64_arith N) ks i
      = Inr (f64_square N (f64_sub N (ks ! i) (ks ! (i - 1))))"
    by (simp add: float64_distortion)
  from distortions_loop_values [OF this]
  have dl: "distortions_loop (float64_arith N) ks
      = Inr (map (\<lambda>i. f64_square N (f64_sub N (ks ! i) (ks ! (i - 1)))) [1..<length ks])" .
  have ne: "map (\<lambda>i. f64_square N (f64_sub N (ks ! i) (ks ! (i - 1)))) [1..<length ks] \<noteq> []"
    using True by auto
  from py_max_position [OF ne, of "el_gt (float64_arith N)"]
  obtain p where p: "p < length (map (\<lambda>i. f64_square N (f64_sub N (ks ! i) (ks ! (i - 1)))) [1..<length ks])"
    "py_max (el_gt (float64_arith N))
      (py_objects (map (\<lambda>i. f64_square N (f64_sub N (ks ! i) (ks ! (i - 1)))) [1..<length ks]))
     = Inr (p, map (\<lambda>i. f64_square N (f64_sub N (ks ! i) (ks ! (i - 1)))) [1..<length ks] ! p)"
    by blast
  from find_elbow_point_index [OF dl p] show ?thesis using True by blast
next
  case False
  then show ?thesis by (simp add: find_elbow_point_short)
qed

lemma k_distance_returns:
  "(\<exists>r. k_distance N fs w = Inr r) \<longleftrightarrow> 1 \<le> w \<and> 4 * w \<le> int (length fs)"
proof -
  consider "w = 0" | "w < 0" | "1 \<le> w" by linarith
  then show ?thesis
  proof cases
    case 1
    then show ?thesis
      by (simp add: k_distance_def k_distances_series_def py_floordiv_def)
  next
    case 2
    then have "int (length fs) div (2 * w) \<le> 0"
      by (simp add: div_nonneg_neg_le0)
    then have "k_distances_series N fs w = Inr []"
      using 2 by (simp add: k_distances_series_def py_floordiv_def py_len_def
          k_distances_loop_def py_range_def)
    then show ?thesis using 2 by (simp add: k_distance_def find_elbow_point_short)
  next
    case 3
    have "(2 \<le> length fs div (2 * nat w)) = (2 * (2 * nat w) \<le> length fs)"
      using 3 by (simp add: less_eq_div_iff_mult_less_eq)
    also have "\<dots> = (4 * w \<le> int (length fs))" using 3 by linarith
    finally have "(2 \<le> length (np_k_distances N fs (nat w))) = (4 * w \<le> int (length fs))"
      by (simp add: np_k_distances_def)
    then show ?thesis
      using 3 find_elbow_point_returns [of N "np_k_distances N fs (nat w)"]
      by (simp add: k_distance_def k_distances_series_spec)
  qed
qed

text \<open>
  Claim C9. Whenever \<open>k_distance\<close> returns, its result, which \<^verbatim>\<open>main\<close> passes as
  \<^verbatim>\<open>eps\<close>, is an integer \<open>\<ge> 1\<close>; and it returns exactly when the window length is
  positive and the features fill at least two chunks of \<open>2 \<sqdot> windowLength\<close> values.
\<close>

theorem k_distance_eps_positive:
  "(k_distance N features window_length = Inr eps \<longrightarrow> 1 \<le> eps)
   \<and> ((\<exists>r. k_distance N features window_length = Inr r)
        \<longleftrightarrow> 1 \<le> window_length \<and> 4 * window_length \<le> int (length features))"
proof -
  have "1 \<le> eps" if "k_distance N features window_length = Inr eps"
    using that by (auto simp: k_distance_def split: sum.splits dest: find_elbow_point_ge_1)
  then show ?thesis using k_distance_returns [of N features window_length] by blast
qed

theorem k_distance_eps_positive_witness:
  "k_distance unrounded_int64_numerics [0, 1, 0, 0] 1 = Inr 1 \<and> (1 :: int) \<le> 1"
proof -
  have c0: "spec_chunk [0, 1, 0, 0 :: int] 2 0 = [0, 1]"
    and c1: "spec_chunk [0, 1, 0, 0 :: int] 2 (Suc 0) = [0, 0]"
    by (simp_all add: spec_chunk_def numeral_2_eq_2)
  have w: "wrap64 (- 1) = - 1" "wrap64 0 = 0"
    by (simp_all add: wrap64_small)
  have d0: "np_differences unrounded_int64_numerics [0, 1] = [- 1]"
    and d1: "np_differences unrounded_int64_numerics [0, 0] = [0]"
    by (simp_all add: np_differences_def unrounded_int64_numerics_def w)
  have n: "[0..<length [0, 1, 0, 0 :: int] div (2 * nat 1)] = [0, Suc 0]"
    by (simp add: upt_rec)
  have "np_k_distances unrounded_int64_numerics [0, 1, 0, 0] (nat 1) = [1, 0]"
    unfolding np_k_distances_def n by (simp add: c0 c1 d0 d1) (simp add: unrounded_int64_numerics_def)
  then have "k_distances_series unrounded_int64_numerics [0, 1, 0, 0] 1 = Inr [1, 0]"
    by (simp add: k_distances_series_spec)
  then have "k_distance unrounded_int64_numerics [0, 1, 0, 0] 1 = Inr 1"
    by (simp add: k_distance_def find_elbow_point_def distortions_loop_def py_range_def
        py_len_def py_getitem_def axis_index_def float64_arith_def py_objects_def)
  then show ?thesis using k_distance_eps_positive [of unrounded_int64_numerics "[0, 1, 0, 0]" 1 1] by simp
qed

subsection \<open>Properties of the measure of concordance\<close>

lemma module_globals_B: "module_globals ''B'' = None"
  by (simp add: module_globals_def)

lemma measure_of_concordance_in_body:
  "measure_of_concordance_in G t1 t2 =
     (case for_each (py_range 0 (py_len t1)) (\<lambda>i.
             for_each (py_range 0 (py_len t2)) (moc_body G t1 t2 i)) 0 of
        Inl e \<Rightarrow> Inl e
      | Inr sum_term \<Rightarrow>
          (case py_truediv 1 (py_len t1 * py_len t2 - 1) of
             Inl e \<Rightarrow> Inl e
           | Inr c \<Rightarrow> Inr (c * sum_term)))"
  by (simp add: measure_of_concordance_in_def Let_def)

lemma moc_body_unbound:
  "G ''B'' = None \<Longrightarrow> 0 \<le> i \<Longrightarrow> i < int (length t1) \<Longrightarrow> moc_body G t1 t2 i j s = Inl NameError"
  by (simp add: moc_body_def py_getitem_nth lookup_name_def)

lemma measure_of_concordance_in_unbound:
  assumes "G ''B'' = None" "t1 \<noteq> []" "t2 \<noteq> []"
  shows "measure_of_concordance_in G t1 t2 = Inl NameError"
proof -
  have r1: "py_range 0 (py_len t1) = 0 # py_range (0 + 1) (py_len t1)"
    using assms(2) by (intro py_range_Cons) (simp add: py_len_def)
  have r2: "py_range 0 (py_len t2) = 0 # py_range (0 + 1) (py_len t2)"
    using assms(3) by (intro py_range_Cons) (simp add: py_len_def)
  have "moc_body G t1 t2 0 0 s = Inl NameError" for s
    using assms by (intro moc_body_unbound) simp_all
  then have "for_each (py_range 0 (py_len t2)) (moc_body G t1 t2 0) s = Inl NameError" for s
    unfolding r2 by simp
  then have "for_each (py_range 0 (py_len t1)) (\<lambda>i.
      for_each (py_range 0 (py_len t2)) (moc_body G t1 t2 i)) 0 = Inl NameError"
    unfolding r1 by simp
  then show ?thesis by (simp add: measure_of_concordance_in_body)
qed

lemma measure_of_concordance_in_empty:
  assumes "t1 = [] \<or> t2 = []"
  shows "measure_of_concordance_in G t1 t2 = Inr 0"
proof -
  have loop: "for_each (py_range 0 (py_len t1)) (\<lambda>i.
      for_each (py_range 0 (py_len t2)) (moc_body G t1 t2 i)) 0 = Inr 0"
  proof (cases "t1 = []")
    case True
    then show ?thesis by (simp add: py_range_def py_len_def)
  next
    case False
    then have "t2 = []" using assms by simp
    then show ?thesis by (intro for_each_skip) (simp add: py_range_def py_len_def)
  qed
  obtain p where p: "p = py_len t1 * py_len t2" by simp
  then have "p = 0" using assms by (auto simp: py_len_def)
  then have "py_truediv 1 (p - 1) = Inr (- 1)"
    by (simp add: py_truediv_def)
  then have "py_truediv 1 (py_len t1 * py_len t2 - 1) = Inr (- 1)"
    unfolding p .
  then show ?thesis
    by (simp add: measure_of_concordance_in_body loop)
qed

lemma moc_body_errors:
  "moc_body G t1 t2 i j s = Inl e \<Longrightarrow>
   e = IndexError \<or> e = NameError \<or> e = TypeError \<or> e = ZeroDivisionError"
  by (auto simp: moc_body_def py_getitem_def axis_index_def lookup_name_def py_subscript_def
      py_truediv_def Let_def split: sum.splits option.splits pyobj.splits if_splits)

lemma measure_of_concordance_in_errors:
  assumes "measure_of_concordance_in G t1 t2 = Inl e"
  shows "e = IndexError \<or> e = NameError \<or> e = TypeError \<or> e = ZeroDivisionError"
proof (cases "for_each (py_range 0 (py_len t1)) (\<lambda>i.
             for_each (py_range 0 (py_len t2)) (moc_body G t1 t2 i)) 0")
  case (Inl e')
  then have "e' = e" using assms by (simp add: measure_of_concordance_in_body)
  with Inl obtain i s where "for_each (py_range 0 (py_len t2)) (moc_body G t1 t2 i) s = Inl e"
    using for_each_error_source by fastforce
  then obtain j s' where "moc_body G t1 t2 i j s' = Inl e"
    using for_each_error_source by fastforce
  then show ?thesis by (rule moc_body_errors)
next
  case (Inr v)
  then show ?thesis using assms
    by (auto simp: measure_of_concordance_in_body py_truediv_def split: if_splits)
qed

lemma moc_body_bound:
  assumes "G ''B'' = Some (PyList t2)" "0 \<le> i" "i < int (length t1)" "0 \<le> j" "j < int (length t2)"
  shows "moc_body G t1 t2 i j s =
     (if length (t1 ! nat i) * length (t2 ! nat j) = 1 then Inl ZeroDivisionError
      else Inr (s + (real (card (set (t1 ! nat i) \<inter> set (t2 ! nat j))))\<^sup>2
                 / (real (length (t1 ! nat i)) * real (length (t2 ! nat j)) - 1)))"
proof -
  have "(int (length (t1 ! nat i)) * int (length (t2 ! nat j)) - 1 = 0)
      = (length (t1 ! nat i) * length (t2 ! nat j) = 1)"
    by (metis diff_eq_eq int_ops(2) mult_cancel_right2 of_nat_eq_iff of_nat_mult add_0)
  then show ?thesis
    using assms
    by (simp add: moc_body_def py_getitem_nth lookup_name_def py_subscript_def py_truediv_def
        py_len_def Let_def)
qed

lemma measure_of_concordance_in_bound_errors:
  assumes "G ''B'' = Some (PyList t2)" "measure_of_concordance_in G t1 t2 = Inl e"
  shows "e = ZeroDivisionError"
proof (cases "for_each (py_range 0 (py_len t1)) (\<lambda>i.
             for_each (py_range 0 (py_len t2)) (moc_body G t1 t2 i)) 0")
  case (Inl e')
  then have "e' = e" using assms(2) by (simp add: measure_of_concordance_in_body)
  with Inl obtain i s where i: "i \<in> set (py_range 0 (py_len t1))"
    "for_each (py_range 0 (py_len t2)) (moc_body G t1 t2 i) s = Inl e"
    using for_each_error_source by fastforce
  then obtain j s' where j: "j \<in> set (py_range 0 (py_len t2))" "moc_body G t1 t2 i j s' = Inl e"
    using for_each_error_source by fastforce
  have "0 \<le> i" "i < int (length t1)" "0 \<le> j" "j < int (length t2)"
    using i(1) j(1) by (auto simp: py_range_def py_len_def)
  then show ?thesis
    using j(2) assms(1) moc_body_bound [where G = G and ?t2.0 = t2 and ?t1.0 = t1 and i = i and j = j and s = s']
    by (auto split: if_splits)
next
  case (Inr v)
  then show ?thesis using assms(2)
    by (auto simp: measure_of_concordance_in_body py_truediv_def split: if_splits)
qed

lemma measure_of_concordance_in_zero_division:
  assumes "G ''B'' = Some (PyList t2)"
    and "(\<exists>a\<in>set t1. \<exists>b\<in>set t2. length a = 1 \<and> length b = 1) \<or> length t1 * length t2 = 1"
  shows "measure_of_concordance_in G t1 t2 = Inl ZeroDivisionError"
proof -
  have "\<exists>e. measure_of_concordance_in G t1 t2 = Inl e"
  proof (cases "\<exists>a\<in>set t1. \<exists>b\<in>set t2. length a = 1 \<and> length b = 1")
    case True
    then obtain m n where mn: "m < length t1" "n < length t2"
      "length (t1 ! m) = 1" "length (t2 ! n) = 1"
      by (metis in_set_conv_nth)
    have "moc_body G t1 t2 (int m) (int n) s = Inl ZeroDivisionError" for s
      using mn assms(1)
        moc_body_bound [where G = G and ?t2.0 = t2 and ?t1.0 = t1 and i = "int m" and j = "int n" and s = s]
      by simp
    then have inner: "\<exists>e. for_each (py_range 0 (py_len t2)) (moc_body G t1 t2 (int m)) s = Inl e"
      for s
    proof (intro for_each_must_raise [where x = "int n"])
      show "int n \<in> set (py_range 0 (py_len t2))"
        using mn(2) by (simp add: py_range_def py_len_def)
    qed blast
    have "\<exists>e. for_each (py_range 0 (py_len t1)) (\<lambda>i.
        for_each (py_range 0 (py_len t2)) (moc_body G t1 t2 i)) 0 = Inl e"
    proof (rule for_each_must_raise [where x = "int m"])
      show "int m \<in> set (py_range 0 (py_len t1))"
        using mn(1) by (simp add: py_range_def py_len_def)
      show "\<exists>e. for_each (py_range 0 (py_len t2)) (moc_body G t1 t2 (int m)) s = Inl e" for s
        by (rule inner)
    qed
    then show ?thesis by (auto simp: measure_of_concordance_in_body)
  next
    case False
    then have "length t1 * length t2 = 1" using assms(2) by blast
    then have "py_len t1 * py_len t2 - 1 = 0"
      by (simp add: py_len_def)
    then show ?thesis
      by (simp add: measure_of_concordance_in_body py_truediv_def split: sum.splits)
  qed
  then show ?thesis
    using assms(1) measure_of_concordance_in_bound_errors [where G = G and ?t2.0 = t2 and ?t1.0 = t1]
    by blast
qed

lemma measure_of_concordance_in_formula:
  assumes "G ''B'' = Some (PyList t2)"
    and "\<forall>a\<in>set t1. \<forall>b\<in>set t2. length a * length b \<noteq> 1"
    and "length t1 * length t2 \<noteq> 1"
  shows "measure_of_concordance_in G t1 t2 = Inr (spec_measure_of_concordance t1 t2)"
proof -
  define tm :: "int list \<Rightarrow> int list \<Rightarrow> real" where "tm =
    (\<lambda>a b. (real (card (set a \<inter> set b)))\<^sup>2 / (real (length a) * real (length b) - 1))"
  have inner: "for_each (py_range 0 (py_len t2)) (moc_body G t1 t2 i) s
      = Inr (s + (\<Sum>b\<leftarrow>t2. tm (t1 ! nat i) b))"
    if "i \<in> set (py_range 0 (py_len t1))" for i s
  proof -
    have i: "0 \<le> i" "i < int (length t1)"
      using that by (auto simp: py_range_def py_len_def)
    have "for_each (py_range 0 (py_len t2)) (moc_body G t1 t2 i) s
      = Inr (s + sum_list (map (\<lambda>j. tm (t1 ! nat i) (t2 ! nat j)) (py_range 0 (py_len t2))))"
    proof (rule for_each_sum)
      fix j s' assume "j \<in> set (py_range 0 (py_len t2))"
      then have j: "0 \<le> j" "j < int (length t2)"
        by (auto simp: py_range_def py_len_def)
      have "t1 ! nat i \<in> set t1" "t2 ! nat j \<in> set t2"
        using i j by simp_all
      then have "length (t1 ! nat i) * length (t2 ! nat j) \<noteq> 1"
        using assms(2) by blast
      then show "moc_body G t1 t2 i j s' = Inr (s' + tm (t1 ! nat i) (t2 ! nat j))"
        using assms(1) i j
          moc_body_bound [where G = G and ?t2.0 = t2 and ?t1.0 = t1 and i = i and j = j and s = s']
        by (simp add: tm_def)
    qed
    then show ?thesis by (simp add: map_index_range)
  qed
  have "for_each (py_range 0 (py_len t1)) (\<lambda>i.
      for_each (py_range 0 (py_len t2)) (moc_body G t1 t2 i)) 0
      = Inr (0 + sum_list (map (\<lambda>i. \<Sum>b\<leftarrow>t2. tm (t1 ! nat i) b) (py_range 0 (py_len t1))))"
    by (rule for_each_sum) (rule inner)
  then have loop: "for_each (py_range 0 (py_len t1)) (\<lambda>i.
      for_each (py_range 0 (py_len t2)) (moc_body G t1 t2 i)) 0
      = Inr (\<Sum>a\<leftarrow>t1. \<Sum>b\<leftarrow>t2. tm a b)"
    using map_index_range [of "\<lambda>a. \<Sum>b\<leftarrow>t2. tm a b" t1] by simp
  have "int (length t1) * int (length t2) - 1 \<noteq> 0"
    using assms(3) by (metis diff_eq_eq add_0 of_nat_mult of_nat_eq_1_iff)
  then have "py_truediv 1 (py_len t1 * py_len t2 - 1)
      = Inr (1 / (real (length t1) * real (length t2) - 1))"
    by (simp add: py_truediv_def py_len_def)
  then show ?thesis
    unfolding measure_of_concordance_in_body loop
    by (simp add: spec_measure_of_concordance_def tm_def)
qed

text \<open>
  Claim C2. The claim gives the value for two TAD sets without degenerate sizes; for
  \<open>[[1,2,3],[4,5,6]]\<close> against itself that value is \<open>3/4\<close>. The module binds no
  name \<^verbatim>\<open>B\<close>, so the call raises \<^verbatim>\<open>NameError\<close> in the first pass of the
  inner loop and returns nothing.
\<close>

theorem measure_of_concordance_undefined_B:
  "measure_of_concordance [[1, 2, 3], [4, 5, 6]] [[1, 2, 3], [4, 5, 6]] = Inl NameError
   \<and> spec_measure_of_concordance [[1, 2, 3], [4, 5, 6]] [[1, 2, 3], [4, 5, 6]] = 3 / 4"
  by (simp add: measure_of_concordance_def measure_of_concordance_in_unbound module_globals_B
      spec_measure_of_concordance_def)

text \<open>
  Claim C7, as the code has it. \<open>measure_of_concordance\<close> has no check for degenerate
  input and never raises \<^verbatim>\<open>DegenerateInputError\<close>, whatever \<^verbatim>\<open>B\<close> is bound to.
  When either TAD set is empty it returns \<open>0\<close>, also when the other set holds a TAD of
  size 1. When \<^verbatim>\<open>B\<close> holds the second input's TADs, a pair of TADs of size 1, or
  \<open>n1 \<sqdot> n2 = 1\<close>, makes a division raise \<^verbatim>\<open>ZeroDivisionError\<close>, which
  propagates.
\<close>

theorem measure_of_concordance_degenerate:
  "measure_of_concordance tad_1 tad_2 \<noteq> Inl DegenerateInputError
   \<and> measure_of_concordance_in G tad_1 tad_2 \<noteq> Inl DegenerateInputError
   \<and> (tad_1 = [] \<or> tad_2 = [] \<longrightarrow> measure_of_concordance_in G tad_1 tad_2 = Inr 0)
   \<and> (G ''B'' = Some (PyList tad_2)
        \<and> ((\<exists>a\<in>set tad_1. \<exists>b\<in>set tad_2. length a = 1 \<and> length b = 1)
             \<or> length tad_1 * length tad_2 = 1)
        \<longrightarrow> measure_of_concordance_in G tad_1 tad_2 = Inl ZeroDivisionError)"
proof -
  have "measure_of_concordance_in H tad_1 tad_2 \<noteq> Inl DegenerateInputError" for H
    using measure_of_concordance_in_errors [of H tad_1 tad_2 DegenerateInputError] by auto
  then show ?thesis
    using measure_of_concordance_in_empty [of tad_1 tad_2 G]
      measure_of_concordance_in_zero_division [of G tad_2 tad_1]
    by (simp add: measure_of_concordance_def)
qed

theorem measure_of_concordance_degenerate_witness:
  "measure_of_concordance_in Map.empty [[1]] [] = Inr 0
   \<and> [''B'' \<mapsto> PyList [[7]]] ''B'' = Some (PyList [[7]])
   \<and> length [[7 :: int]] * length [[7 :: int]] = 1
   \<and> measure_of_concordance_in [''B'' \<mapsto> PyList [[7]]] [[7]] [[7]] = Inl ZeroDivisionError"
  using measure_of_concordance_degenerate [of "[[1]]" "[]" Map.empty]
    measure_of_concordance_degenerate [of "[[7]]" "[[7]]" "[''B'' \<mapsto> PyList [[7]]]"]
  by simp

text \<open>
  Claim C7 as stated asks for an error on every input with a TAD of size 1. With the
  first set \<open>[[1]]\<close> and an empty second set the loop body never runs and the call
  returns \<open>0\<close>.
\<close>

theorem measure_of_concordance_size_one_returns:
  "measure_of_concordance [[1]] [] = Inr 0"
  by (simp add: measure_of_concordance_def measure_of_concordance_in_empty)

end
